theory Spec2Isabelle
  imports Complex_Main "HOL-Library.Multiset" "HOL-Library.Product_Lexorder" "HOL-Library.Log_Nat"
begin

section \<open>Python strings\<close>

text \<open>
  A Python \<open>str\<close> is modelled as a \<open>string\<close>: a list of characters, each a code point
  below 256.  The functions of this section are the built-in string methods the grading
  code calls, written out as recursive functions.
\<close>

definition LF :: char where
  "LF = CHR 0x0A"

definition CR :: char where
  "CR = CHR 0x0D"

text \<open>\<open>str.isspace\<close> on one character: the white space among the code points below 256.\<close>

definition py_isspace :: "char \<Rightarrow> bool" where
  "py_isspace c =
     (let n = (of_char c :: int)
      in (9 \<le> n \<and> n \<le> 13) \<or> (28 \<le> n \<and> n \<le> 32) \<or> n = 133 \<or> n = 160)"

text \<open>\<open>s.rstrip()\<close>, \<open>s.lstrip()\<close> and \<open>s.strip()\<close>.\<close>

definition rstrip :: "string \<Rightarrow> string" where
  "rstrip s = rev (dropWhile py_isspace (rev s))"

definition lstrip :: "string \<Rightarrow> string" where
  "lstrip s = dropWhile py_isspace s"

definition strip :: "string \<Rightarrow> string" where
  "strip s = lstrip (rstrip s)"

text \<open>\<open>s.replace("\r\n", "\n")\<close>: left to right, matches do not overlap.\<close>

fun replace_crlf :: "string \<Rightarrow> string" where
  "replace_crlf (c # d # s) =
     (if c = CR \<and> d = LF then LF # replace_crlf s else c # replace_crlf (d # s))"
| "replace_crlf s = s"

text \<open>\<open>s.split(sep)\<close> for a separator of one character: never the empty list.\<close>

fun split_on :: "char \<Rightarrow> string \<Rightarrow> string list" where
  "split_on sep [] = [[]]"
| "split_on sep (c # s) =
     (if c = sep then [] # split_on sep s
      else (case split_on sep s of [] \<Rightarrow> [[c]] | l # ls \<Rightarrow> (c # l) # ls))"

text \<open>\<open>"\n".join(lines)\<close>.\<close>

fun join_nl :: "string list \<Rightarrow> string" where
  "join_nl [] = []"
| "join_nl [l] = l"
| "join_nl (l # ls) = l @ LF # join_nl ls"

section \<open>Output normalisation\<close>

text \<open>
  The loop \<^verbatim>\<open>while lines and not lines[-1]: lines.pop()\<close> of both normalisers.
\<close>

function drop_trailing_empty :: "string list \<Rightarrow> string list" where
  "drop_trailing_empty ls =
     (if ls \<noteq> [] \<and> last ls = [] then drop_trailing_empty (butlast ls) else ls)"
  by pat_completeness auto
termination
  by (relation "measure length") auto

declare drop_trailing_empty.simps [simp del]

text \<open>\<^verbatim>\<open>normalize_output\<close> of the grading server.\<close>

definition normalize_output :: "string \<Rightarrow> string" where
  "normalize_output output =
     (let lines = split_on LF (replace_crlf output);
          lines = map rstrip lines;
          lines = drop_trailing_empty lines
      in join_nl lines)"

text \<open>\<^verbatim>\<open>OIGradingRunner._normalize_output\<close> of the runner: the same body.\<close>

definition runner_normalize_output :: "string \<Rightarrow> string" where
  "runner_normalize_output output =
     (let lines = split_on LF (replace_crlf output);
          lines = map rstrip lines;
          lines = drop_trailing_empty lines
      in join_nl lines)"

section \<open>Facts about the string functions\<close>

lemma py_isspace_CR [simp]: "py_isspace CR"
  by (simp add: py_isspace_def CR_def)

lemma py_isspace_LF [simp]: "py_isspace LF"
  by (simp add: py_isspace_def LF_def)

lemma CR_neq_LF [simp]: "CR \<noteq> LF" "LF \<noteq> CR"
  by (simp_all add: CR_def LF_def)

lemma rstrip_Nil [simp]: "rstrip [] = []"
  by (simp add: rstrip_def)

lemma rstrip_idem [simp]: "rstrip (rstrip s) = rstrip s"
proof -
  have "dropWhile py_isspace (dropWhile py_isspace (rev s)) = dropWhile py_isspace (rev s)"
    by simp
  then show ?thesis by (simp add: rstrip_def)
qed

lemma set_rstrip_subset: "set (rstrip s) \<subseteq> set s"
proof -
  have "set (dropWhile py_isspace (rev s)) \<subseteq> set (rev s)"
    by (rule set_dropWhileD [THEN subsetI]) 
  then show ?thesis by (simp add: rstrip_def)
qed

lemma rstrip_last_not_space:
  assumes "rstrip s \<noteq> []"
  shows "\<not> py_isspace (last (rstrip s))"
proof -
  let ?d = "dropWhile py_isspace (rev s)"
  from assms have ne: "?d \<noteq> []" by (simp add: rstrip_def)
  then have "\<not> py_isspace (hd ?d)" by (rule hd_dropWhile)
  moreover have "last (rstrip s) = hd ?d" using ne by (simp add: rstrip_def last_rev)
  ultimately show ?thesis by simp
qed

lemma split_on_not_Nil [simp]: "split_on sep s \<noteq> []"
  by (induction s) (auto split: list.splits)

lemma split_on_no_sep: "l \<in> set (split_on sep s) \<Longrightarrow> sep \<notin> set l"
proof (induction s arbitrary: l)
  case Nil
  then show ?case by simp
next
  case (Cons c s)
  show ?case
  proof (cases "c = sep")
    case True
    with Cons show ?thesis by auto
  next
    case False
    obtain l0 ls where sp: "split_on sep s = l0 # ls"
      by (cases "split_on sep s") auto
    with False Cons.prems have "l = c # l0 \<or> l \<in> set ls" by auto
    then show ?thesis
    proof
      assume "l = c # l0"
      moreover have "sep \<notin> set l0" using Cons.IH [of l0] sp by simp
      ultimately show ?thesis using False by auto
    next
      assume "l \<in> set ls"
      then show ?thesis using Cons.IH [of l] sp by simp
    qed
  qed
qed

lemma split_on_line: "sep \<notin> set l \<Longrightarrow> split_on sep l = [l]"
  by (induction l) auto

lemma split_on_append_sep:
  "sep \<notin> set l \<Longrightarrow> split_on sep (l @ sep # rest) = l # split_on sep rest"
  by (induction l) auto

lemma replace_crlf_line: "LF \<notin> set l \<Longrightarrow> replace_crlf l = l"
  by (induction l rule: replace_crlf.induct) auto

lemma replace_crlf_Cons: "c \<noteq> CR \<Longrightarrow> replace_crlf (c # s) = c # replace_crlf s"
  by (cases s) auto

lemma replace_crlf_append_LF:
  assumes "LF \<notin> set l" and "l \<noteq> [] \<Longrightarrow> last l \<noteq> CR"
  shows "replace_crlf (l @ LF # rest) = l @ LF # replace_crlf rest"
  using assms
proof (induction l)
  case Nil
  then show ?case by (simp add: replace_crlf_Cons)
next
  case (Cons c l)
  show ?case
  proof (cases l)
    case Nil
    with Cons.prems have "c \<noteq> CR" by simp
    with Nil show ?thesis by (simp add: replace_crlf_Cons)
  next
    case (Cons d l')
    with Cons.prems have "d \<noteq> LF" by auto
    then have "replace_crlf ((c # l) @ LF # rest) = c # replace_crlf (l @ LF # rest)"
      using Cons by simp
    moreover have "replace_crlf (l @ LF # rest) = l @ LF # replace_crlf rest"
      using Cons.IH Cons.prems Cons by auto
    ultimately show ?thesis by simp
  qed
qed

lemma drop_trailing_empty_eq:
  "drop_trailing_empty ls = rev (dropWhile (\<lambda>l. l = []) (rev ls))"
proof (induction ls rule: drop_trailing_empty.induct)
  case (1 ls)
  show ?case
  proof (cases "ls \<noteq> [] \<and> last ls = []")
    case True
    then have "ls = butlast ls @ [[]]"
      by (metis append_butlast_last_id)
    then have "rev ls = [] # rev (butlast ls)"
      by (metis rev_singleton_conv rev_append append_Cons append_Nil)
    then have "dropWhile (\<lambda>l. l = []) (rev ls) =
               dropWhile (\<lambda>l. l = []) ([] # rev (butlast ls))"
      by (rule arg_cong)
    then have "rev (dropWhile (\<lambda>l. l = []) (rev ls)) =
               rev (dropWhile (\<lambda>l. l = []) (rev (butlast ls)))"
      by simp
    moreover have "drop_trailing_empty ls = drop_trailing_empty (butlast ls)"
      using True by (subst drop_trailing_empty.simps) simp
    ultimately show ?thesis using "1.IH" True by simp
  next
    case False
    then have "drop_trailing_empty ls = ls"
      by (subst drop_trailing_empty.simps) auto
    moreover have "dropWhile (\<lambda>l. l = []) (rev ls) = rev ls"
      using False by (cases "rev ls") (auto simp: last_rev hd_rev)
    ultimately show ?thesis by simp
  qed
qed

lemma drop_trailing_empty_fix:
  "ls = [] \<or> last ls \<noteq> [] \<Longrightarrow> drop_trailing_empty ls = ls"
  by (subst drop_trailing_empty.simps) auto

lemma drop_trailing_empty_last:
  "drop_trailing_empty ls \<noteq> [] \<Longrightarrow> last (drop_trailing_empty ls) \<noteq> []"
proof -
  assume ne: "drop_trailing_empty ls \<noteq> []"
  let ?d = "dropWhile (\<lambda>l. l = []) (rev ls)"
  from ne have "?d \<noteq> []" by (simp add: drop_trailing_empty_eq)
  then have "hd ?d \<noteq> []" by (rule hd_dropWhile)
  moreover have "last (drop_trailing_empty ls) = hd ?d"
    using \<open>?d \<noteq> []\<close> by (simp add: drop_trailing_empty_eq last_rev)
  ultimately show ?thesis by simp
qed

lemma set_drop_trailing_empty: "set (drop_trailing_empty ls) \<subseteq> set ls"
proof -
  have "set (dropWhile (\<lambda>l. l = []) (rev ls)) \<subseteq> set (rev ls)"
    by (rule set_dropWhileD [THEN subsetI])
  then show ?thesis by (simp add: drop_trailing_empty_eq)
qed

text \<open>A list of lines in normal form: no line feed inside a line, no trailing white space,
  no empty last line.\<close>

definition normal_lines :: "string list \<Rightarrow> bool" where
  "normal_lines ls =
     ((\<forall>l \<in> set ls. LF \<notin> set l \<and> rstrip l = l) \<and> (ls \<noteq> [] \<longrightarrow> last ls \<noteq> []))"

lemma rstrip_fix_no_CR: "rstrip l = l \<Longrightarrow> l \<noteq> [] \<Longrightarrow> last l \<noteq> CR"
  using rstrip_last_not_space [of l] py_isspace_CR by auto

lemma replace_crlf_join:
  "\<forall>l \<in> set ls. LF \<notin> set l \<and> rstrip l = l \<Longrightarrow> replace_crlf (join_nl ls) = join_nl ls"
proof (induction ls rule: join_nl.induct)
  case 1
  then show ?case by simp
next
  case (2 l)
  then show ?case by (simp add: replace_crlf_line)
next
  case (3 l v va)
  then have "LF \<notin> set l" and "l \<noteq> [] \<Longrightarrow> last l \<noteq> CR"
    by (simp_all add: rstrip_fix_no_CR)
  then have "replace_crlf (l @ LF # join_nl (v # va)) = l @ LF # replace_crlf (join_nl (v # va))"
    by (rule replace_crlf_append_LF)
  with 3 show ?case by simp
qed

lemma split_on_join:
  "\<forall>l \<in> set ls. LF \<notin> set l \<Longrightarrow> ls \<noteq> [] \<Longrightarrow> split_on LF (join_nl ls) = ls"
proof (induction ls rule: join_nl.induct)
  case 1
  then show ?case by simp
next
  case (2 l)
  then show ?case by (simp add: split_on_line)
next
  case (3 l v va)
  then show ?case by (simp add: split_on_append_sep)
qed

lemma normalize_join:
  assumes "normal_lines ls"
  shows "join_nl (drop_trailing_empty (map rstrip (split_on LF (replace_crlf (join_nl ls))))) = join_nl ls"
proof (cases "ls = []")
  case True
  have "drop_trailing_empty [[]] = []"
    by (simp add: drop_trailing_empty_eq)
  with True show ?thesis by simp
next
  case False
  from assms have a: "\<forall>l \<in> set ls. LF \<notin> set l \<and> rstrip l = l" and b: "last ls \<noteq> []"
    using False by (auto simp: normal_lines_def)
  have "replace_crlf (join_nl ls) = join_nl ls" using a by (rule replace_crlf_join)
  moreover have "split_on LF (join_nl ls) = ls" using a False by (simp add: split_on_join)
  moreover have "map rstrip ls = ls" using a by (simp add: map_idI)
  moreover have "drop_trailing_empty ls = ls" using b by (simp add: drop_trailing_empty_fix)
  ultimately show ?thesis by simp
qed

lemma normal_lines_normalize:
  "normal_lines (drop_trailing_empty (map rstrip (split_on LF s)))"
proof -
  let ?X = "map rstrip (split_on LF s)"
  have "\<forall>l \<in> set ?X. LF \<notin> set l \<and> rstrip l = l"
    using split_on_no_sep set_rstrip_subset by fastforce
  then have "\<forall>l \<in> set (drop_trailing_empty ?X). LF \<notin> set l \<and> rstrip l = l"
    using set_drop_trailing_empty [of ?X] by blast
  then show ?thesis
    using drop_trailing_empty_last [of ?X] by (simp add: normal_lines_def)
qed

text \<open>
  Claim C5.  Normalising twice is the same as normalising once, for every string, both for
  \<^verbatim>\<open>normalize_output\<close> of the grading server and for
  \<^verbatim>\<open>_normalize_output\<close> of the runner.
\<close>

theorem normalize_output_idempotent:
  "normalize_output (normalize_output s) = normalize_output s \<and>
   runner_normalize_output (runner_normalize_output s) = runner_normalize_output s"
  using normalize_join [OF normal_lines_normalize [of "replace_crlf s"]]
  by (simp add: normalize_output_def runner_normalize_output_def)

section \<open>Python values and exceptions\<close>

text \<open>
  A value decoded from JSON, as \<open>response.json()\<close> and \<open>request.get_json()\<close> return
  it.  A dict is an association list with distinct keys.
\<close>

datatype pyval =
    PyNone
  | PyBool bool
  | PyInt int
  | PyFloat rat
  | PyStr string
  | PyList "pyval list"
  | PyDict "(string \<times> pyval) list"

text \<open>The truth value Python gives a value in \<open>if v:\<close>.\<close>

fun truthy :: "pyval \<Rightarrow> bool" where
  "truthy PyNone = False"
| "truthy (PyBool b) = b"
| "truthy (PyInt i) = (i \<noteq> 0)"
| "truthy (PyFloat x) = (x \<noteq> 0)"
| "truthy (PyStr s) = (s \<noteq> [])"
| "truthy (PyList vs) = (vs \<noteq> [])"
| "truthy (PyDict kvs) = (kvs \<noteq> [])"

fun py_type_name :: "pyval \<Rightarrow> string" where
  "py_type_name PyNone = ''NoneType''"
| "py_type_name (PyBool b) = ''bool''"
| "py_type_name (PyInt i) = ''int''"
| "py_type_name (PyFloat x) = ''float''"
| "py_type_name (PyStr s) = ''str''"
| "py_type_name (PyList vs) = ''list''"
| "py_type_name (PyDict kvs) = ''dict''"

text \<open>
  An exception is its class, as far as the \<open>except\<close> clauses of the code tell classes
  apart, and the text \<open>str(e)\<close>.  \<open>RequestException\<close> stands for
  \<open>requests.RequestException\<close> and its subclasses (connection errors, timeouts),
  \<open>TimeoutExpired\<close> for \<open>subprocess.TimeoutExpired\<close>.
\<close>

datatype exn_class =
    ValueError | IndexError | AttributeError | TypeError
  | RequestException | TimeoutExpired | OtherException

datatype pyexn = PyExn exn_class string

fun exn_class_of :: "pyexn \<Rightarrow> exn_class" where
  "exn_class_of (PyExn c m) = c"

fun exn_str :: "pyexn \<Rightarrow> string" where
  "exn_str (PyExn c m) = m"

text \<open>\<open>v.get(key, default)\<close>: a value that is no dict has no \<open>get\<close>.\<close>

fun py_get :: "pyval \<Rightarrow> string \<Rightarrow> pyval \<Rightarrow> pyexn + pyval" where
  "py_get (PyDict kvs) key dflt = Inr (case map_of kvs key of None \<Rightarrow> dflt | Some v \<Rightarrow> v)"
| "py_get v key dflt =
     Inl (PyExn AttributeError
       ([CHR 0x27] @ py_type_name v @ [CHR 0x27] @ '' object has no attribute '' @
        [CHR 0x27] @ ''get'' @ [CHR 0x27]))"

text \<open>\<open>str(n)\<close> for an integer: the decimal digits, after a minus sign when it is
  negative.\<close>

function str_digits :: "int \<Rightarrow> string" where
  "str_digits n =
     (if n < 10 then [char_of (48 + n)]
      else str_digits (n div 10) @ [char_of (48 + n mod 10)])"
  by pat_completeness auto
termination
  by (relation "measure nat") auto

declare str_digits.simps [simp del]

definition str_int :: "int \<Rightarrow> string" where
  "str_int i = (if i < 0 then CHR ''-'' # str_digits (- i) else str_digits i)"

definition str_nat :: "nat \<Rightarrow> string" where
  "str_nat n = str_digits (int n)"

section \<open>The grading runner\<close>

text \<open>\<^verbatim>\<open>TestResult\<close> and \<^verbatim>\<open>GradingResult\<close>.  The message of a test result is whatever
  the verdict service's JSON carried, so it is a \<open>pyval\<close>.\<close>

record test_result =
  test_id :: string
  passed :: bool
  status :: string
  time_ms :: real
  stdout :: string
  stderr :: string
  message :: pyval

record grading_result =
  score :: real
  passed :: nat
  total :: nat
  language :: string
  test_results :: "test_result list"
  compilation_error :: "string option"

text \<open>The fields of \<^verbatim>\<open>OIGradingRunner\<close>; paths are strings, joined with a slash.\<close>

record runner =
  problem_id :: string
  time_limit_seconds :: int
  workdir :: string
  problems_dir :: string

definition path_join :: "string \<Rightarrow> string \<Rightarrow> string" where
  "path_join d f = d @ ''/'' @ f"

definition input_dir :: "runner \<Rightarrow> string" where
  "input_dir r = path_join (path_join (problems_dir r) (problem_id r)) ''input''"

subsection \<open>What the runner sees of the world\<close>

text \<open>
  An HTTP response as the runner reads it: the status code, the \<open>content-type\<close> header
  and what \<open>response.json()\<close> does, which is to return the decoded body or to raise.
\<close>

record http_response =
  status_code :: int
  content_type :: "string option"
  json_body :: "pyexn + pyval"

text \<open>\<open>requests.post\<close> raises or returns a response.\<close>

datatype http_outcome = HttpRaises pyexn | HttpResponse http_response

text \<open>\<open>subprocess.run\<close> (and the \<open>open\<close> before it) raises, or the process ends with a
  return code, its captured output and the elapsed milliseconds.\<close>

datatype run_outcome =
    RunRaises pyexn
  | RunCompleted int string string real

text \<open>
  The surroundings of one test case: whether its input file exists, what running the
  command does, and what posting \<open>(problem_id, test_id, actual_output)\<close> to
  \<open>/grade\<close> does.
\<close>

record test_env =
  input_exists :: bool
  run :: "string list \<Rightarrow> run_outcome"
  post_grade :: "string \<Rightarrow> string \<Rightarrow> string \<Rightarrow> http_outcome"

subsection \<open>\<^verbatim>\<open>_grade_via_api\<close>\<close>

text \<open>
  The result is the pair \<open>(passed, message)\<close>, or \<open>Inl e\<close> when an exception that is
  no \<open>RequestException\<close> leaves the function.
\<close>

definition grade_via_api_body :: "http_response \<Rightarrow> pyexn + (pyval \<times> pyval)" where
  "grade_via_api_body response =
     (if status_code response = 200 then
        (case json_body response of
           Inl e \<Rightarrow> Inl e
         | Inr data \<Rightarrow>
             (case py_get data ''passed'' (PyBool False) of
                Inl e \<Rightarrow> Inl e
              | Inr p \<Rightarrow>
                  (case py_get data ''message'' (PyStr '''') of
                     Inl e \<Rightarrow> Inl e
                   | Inr m \<Rightarrow> Inr (p, m))))
      else
        (case (if content_type response = Some ''application/json''
               then json_body response else Inr (PyDict [])) of
           Inl e \<Rightarrow> Inl e
         | Inr data \<Rightarrow>
             (case py_get data ''message''
                     (PyStr (''API error: '' @ str_int (status_code response))) of
                Inl e \<Rightarrow> Inl e
              | Inr m \<Rightarrow> Inr (PyBool False, m))))"

definition grade_via_api ::
  "runner \<Rightarrow> test_env \<Rightarrow> string \<Rightarrow> string \<Rightarrow> pyexn + (pyval \<times> pyval)" where
  "grade_via_api r env tid actual_output =
     (case (case post_grade env (problem_id r) tid actual_output of
              HttpRaises e \<Rightarrow> Inl e
            | HttpResponse response \<Rightarrow> grade_via_api_body response) of
        Inl e \<Rightarrow>
          (if exn_class_of e = RequestException
           then Inr (PyBool False, PyStr (''Grading server error: '' @ exn_str e))
           else Inl e)
      | Inr res \<Rightarrow> Inr res)"

subsection \<open>\<^verbatim>\<open>_run_test_case\<close>\<close>

definition run_test_case ::
  "runner \<Rightarrow> test_env \<Rightarrow> string \<Rightarrow> string \<Rightarrow> string \<Rightarrow> test_result" where
  "run_test_case r env tid executable lang =
     (let input_file = path_join (input_dir r) (tid @ ''.txt'') in
      if \<not> input_exists env then
        \<lparr>test_id = tid, passed = False, status = ''RE'', time_ms = 0, stdout = '''',
         stderr = ''Input file not found: '' @ input_file,
         message = PyStr ''Input file not found''\<rparr>
      else
        let cmd = (if lang = ''cpp'' then [executable] else [''python3'', executable]);
            raised = (\<lambda>e.
              if exn_class_of e = TimeoutExpired then
                \<lparr>test_id = tid, passed = False, status = ''TLE'',
                 time_ms = of_int (time_limit_seconds r * 1000), stdout = '''',
                 stderr = ''Time limit exceeded ('' @ str_int (time_limit_seconds r) @ ''s)'',
                 message = PyStr ''Time limit exceeded''\<rparr>
              else
                \<lparr>test_id = tid, passed = False, status = ''RE'', time_ms = 0, stdout = '''',
                 stderr = exn_str e, message = PyStr (exn_str e)\<rparr>)
        in
          (case run env cmd of
             RunRaises e \<Rightarrow> raised e
           | RunCompleted returncode out err ms \<Rightarrow>
               if returncode \<noteq> 0 then
                 \<lparr>test_id = tid, passed = False, status = ''RE'', time_ms = ms, stdout = out,
                  stderr = err,
                  message = PyStr (''Runtime error (exit code '' @ str_int returncode @ '')'')\<rparr>
               else
                 let actual_output = runner_normalize_output out in
                 (case grade_via_api r env tid actual_output of
                    Inl e \<Rightarrow> raised e
                  | Inr (p, m) \<Rightarrow>
                      if truthy p then
                        \<lparr>test_id = tid, passed = True, status = ''AC'', time_ms = ms,
                         stdout = out, stderr = err, message = m\<rparr>
                      else
                        \<lparr>test_id = tid, passed = False, status = ''WA'', time_ms = ms,
                         stdout = out, stderr = err, message = m\<rparr>)))"

subsection \<open>\<^verbatim>\<open>run_grading\<close>\<close>

text \<open>
  What \<^verbatim>\<open>run_grading\<close> sees: which solution files exist, what the compiler run does
  (\<open>RunCompleted\<close> with the compiler's return code and captured output, or an
  exception), the answer to \<open>GET /list_tests\<close>, the result of the local directory scan
  \<^verbatim>\<open>_get_test_cases_local\<close> (not modelled further), and the surroundings of each test
  case, by its position in the list and its id.

  The body of a list response is taken to be what \<^verbatim>\<open>list_tests\<close> of the server sends:
  \<open>response.json()\<close> raises, or gives an object whose \<open>tests\<close> entry, when present,
  is a list of strings.
\<close>

record list_response =
  list_status :: int
  list_json :: "pyexn + string list option"

datatype list_outcome = ListRaises pyexn | ListResponse list_response

record world =
  cpp_exists :: bool
  py_exists :: bool
  compile_run :: run_outcome
  list_tests_api :: list_outcome
  local_tests :: "pyexn + string list"
  test_envs :: "nat \<Rightarrow> string \<Rightarrow> test_env"

definition detect_solution :: "runner \<Rightarrow> world \<Rightarrow> string option \<times> string" where
  "detect_solution r w =
     (let cpp_path = path_join (workdir r) (problem_id r @ ''.cpp'');
          py_path = path_join (workdir r) (problem_id r @ ''.py'')
      in if cpp_exists w then (Some cpp_path, ''cpp'')
         else if py_exists w then (Some py_path, ''python'')
         else (None, ''''))"

definition compile_cpp :: "world \<Rightarrow> bool \<times> string" where
  "compile_cpp w =
     (case compile_run w of
        RunCompleted returncode out err ms \<Rightarrow>
          if returncode \<noteq> 0 then (False, err) else (True, '''')
      | RunRaises e \<Rightarrow>
          if exn_class_of e = TimeoutExpired then (False, ''Compilation timed out (>60s)'')
          else (False, exn_str e))"

definition get_test_cases_from_api :: "world \<Rightarrow> pyexn + string list" where
  "get_test_cases_from_api w =
     (case (case list_tests_api w of
              ListRaises e \<Rightarrow> Inl e
            | ListResponse response \<Rightarrow>
                if list_status response = 200 then
                  (case list_json response of
                     Inl e \<Rightarrow> Inl e
                   | Inr data \<Rightarrow> Inr (case data of None \<Rightarrow> [] | Some tests \<Rightarrow> tests))
                else Inr []) of
        Inl e \<Rightarrow> if exn_class_of e = RequestException then Inr [] else Inl e
      | Inr tests \<Rightarrow> Inr tests)"

definition get_test_cases :: "world \<Rightarrow> pyexn + string list" where
  "get_test_cases w =
     (case get_test_cases_from_api w of
        Inl e \<Rightarrow> Inl e
      | Inr test_cases \<Rightarrow> if test_cases \<noteq> [] then Inr test_cases else local_tests w)"

text \<open>The loop over the test cases, with the list of results and the count of passed
  tests it builds.\<close>

fun run_all ::
  "runner \<Rightarrow> (nat \<Rightarrow> string \<Rightarrow> test_env) \<Rightarrow> string \<Rightarrow> string \<Rightarrow> nat \<Rightarrow> string list \<Rightarrow>
     test_result list \<Rightarrow> nat \<Rightarrow> test_result list \<times> nat" where
  "run_all r envs executable lang i [] results n_passed = (results, n_passed)"
| "run_all r envs executable lang i (tid # tids) results n_passed =
     (let result = run_test_case r (envs i tid) tid executable lang
      in run_all r envs executable lang (i + 1) tids (results @ [result])
           (if test_result.passed result then n_passed + 1 else n_passed))"

text \<open>\<^verbatim>\<open>run_grading\<close>: a grading result, or \<open>Inl e\<close> when an exception leaves it.\<close>

definition run_grading :: "runner \<Rightarrow> world \<Rightarrow> pyexn + grading_result" where
  "run_grading r w =
     (case detect_solution r w of
        (None, lang) \<Rightarrow>
          Inr \<lparr>score = 0, passed = 0, total = 0, language = ''unknown'', test_results = [],
               compilation_error = Some (''No solution file found. Expected '' @ problem_id r @
                 ''.cpp or '' @ problem_id r @ ''.py in '' @ workdir r)\<rparr>
      | (Some solution_path, lang) \<Rightarrow>
          (case (if lang = ''cpp'' then compile_cpp w else (True, '''')) of
             (False, error) \<Rightarrow>
               Inr \<lparr>score = 0, passed = 0, total = 0, language = lang, test_results = [],
                    compilation_error = Some error\<rparr>
           | (True, error) \<Rightarrow>
               (let executable =
                      (if lang = ''cpp'' then path_join (workdir r) (problem_id r)
                       else solution_path)
                in case get_test_cases w of
                     Inl e \<Rightarrow> Inl e
                   | Inr test_cases \<Rightarrow>
                       if test_cases = [] then
                         Inr \<lparr>score = 0, passed = 0, total = 0, language = lang,
                              test_results = [],
                              compilation_error =
                                Some (''No test cases found for problem '' @ problem_id r)\<rparr>
                       else
                         (case run_all r (test_envs w) executable lang 0 test_cases [] 0 of
                            (results, n_passed) \<Rightarrow>
                              (let n_total = length test_cases;
                                   sc = (if n_total > 0 then real n_passed / real n_total else 0)
                               in Inr \<lparr>score = sc, passed = n_passed, total = n_total,
                                       language = lang, test_results = results,
                                       compilation_error = None\<rparr>)))))"

subsection \<open>Facts about the runner\<close>

lemma run_test_case_passed_AC:
  "test_result.passed (run_test_case r env tid executable lang) =
     (status (run_test_case r env tid executable lang) = ''AC'')"
  by (simp add: run_test_case_def Let_def split: run_outcome.splits sum.splits prod.splits)

lemma run_test_case_status:
  "status (run_test_case r env tid executable lang) \<in> {''AC'', ''WA'', ''TLE'', ''RE''}"
  by (simp add: run_test_case_def Let_def split: run_outcome.splits sum.splits prod.splits)

text \<open>The loop runs every test case once, in order, and counts the passed ones.\<close>

lemma run_all_eq:
  "run_all r envs executable lang i tids results n =
     (results @ map (\<lambda>(j, tid). run_test_case r (envs j tid) tid executable lang)
                    (List.enumerate i tids),
      n + length (filter test_result.passed
            (map (\<lambda>(j, tid). run_test_case r (envs j tid) tid executable lang)
                 (List.enumerate i tids))))"
  by (induction tids arbitrary: i results n) (simp_all add: Let_def)

lemma run_all_results:
  assumes "run_all r envs executable lang i tids [] 0 = (results, n)"
  shows "length results = length tids"
    and "n = length (filter test_result.passed results)"
  using assms by (auto simp: run_all_eq)

lemma run_all_members:
  assumes "run_all r envs executable lang i tids [] 0 = (results, n)" and "t \<in> set results"
  shows "\<exists>j tid. t = run_test_case r (envs j tid) tid executable lang"
proof -
  from assms have
    "t \<in> (\<lambda>(j, tid). run_test_case r (envs j tid) tid executable lang) ` set (List.enumerate i tids)"
    by (auto simp: run_all_eq)
  then show ?thesis by auto
qed

text \<open>A grading request fails when \<open>requests.post\<close> raises (connection error, timeout)
  or the response's status is not 200.\<close>

definition request_failed :: "http_outcome \<Rightarrow> bool" where
  "request_failed outcome =
     (case outcome of
        HttpRaises e \<Rightarrow> True
      | HttpResponse response \<Rightarrow> status_code response \<noteq> 200)"

lemma grade_via_api_failed:
  assumes "request_failed (post_grade env (problem_id r) tid actual_output)"
      and "grade_via_api r env tid actual_output = Inr (p, m)"
  shows "p = PyBool False"
  using assms
  by (auto simp: request_failed_def grade_via_api_def grade_via_api_body_def
           split: http_outcome.splits sum.splits if_splits)

subsection \<open>Example surroundings\<close>

definition ex_runner :: runner where
  "ex_runner =
     \<lparr>problem_id = ''sum'', time_limit_seconds = 2, workdir = ''/workdir'',
      problems_dir = ''/problems''\<rparr>"

lemma ex_runner_fields:
  "problem_id ex_runner = ''sum''" "time_limit_seconds ex_runner = 2"
  "workdir ex_runner = ''/workdir''" "problems_dir ex_runner = ''/problems''"
  by (simp_all add: ex_runner_def)

text \<open>The solution prints \<open>42\<close>; the verdict service cannot be reached.\<close>

definition ex_env_unreachable :: test_env where
  "ex_env_unreachable =
     \<lparr>input_exists = True,
      run = (\<lambda>cmd. RunCompleted 0 (''42'' @ [LF]) [] 5),
      post_grade = (\<lambda>pid tid actual. HttpRaises (PyExn RequestException ''connection refused''))\<rparr>"

text \<open>The solution prints \<open>42\<close>; the verdict service accepts.\<close>

definition ex_env_accept :: test_env where
  "ex_env_accept =
     \<lparr>input_exists = True,
      run = (\<lambda>cmd. RunCompleted 0 (''42'' @ [LF]) [] 5),
      post_grade = (\<lambda>pid tid actual. HttpResponse
        \<lparr>status_code = 200, content_type = Some ''application/json'',
         json_body = Inr (PyDict [(''verdict'', PyStr ''AC''), (''passed'', PyBool True),
                                  (''message'', PyStr ''OK'')])\<rparr>)\<rparr>"

text \<open>A Python solution and two test cases: the first is accepted, the second cannot
  be graded.\<close>

definition ex_world :: world where
  "ex_world =
     \<lparr>cpp_exists = False, py_exists = True,
      compile_run = RunCompleted 0 [] [] 0,
      list_tests_api = ListResponse \<lparr>list_status = 200, list_json = Inr (Some [''1'', ''2''])\<rparr>,
      local_tests = Inr [],
      test_envs = (\<lambda>i tid. if tid = ''1'' then ex_env_accept else ex_env_unreachable)\<rparr>"

text \<open>A C++ solution whose compiler run ends with a non-zero return code and writes
  nothing to its standard error.\<close>

definition ex_world_silent_compiler :: world where
  "ex_world_silent_compiler =
     \<lparr>cpp_exists = True, py_exists = False,
      compile_run = RunCompleted (- 9) [] [] 0,
      list_tests_api = ListResponse \<lparr>list_status = 200, list_json = Inr (Some [''1'', ''2''])\<rparr>,
      local_tests = Inr [],
      test_envs = (\<lambda>i tid. ex_env_accept)\<rparr>"

lemma normalize_42: "runner_normalize_output (''42'' @ [LF]) = ''42''"
  by (simp add: runner_normalize_output_def LF_def CR_def drop_trailing_empty_eq rstrip_def py_isspace_def)

lemma ex_unreachable_result:
  "run_test_case ex_runner ex_env_unreachable ''2'' ''/workdir/sum.py'' ''python'' =
     \<lparr>test_id = ''2'', passed = False, status = ''WA'', time_ms = 5, stdout = ''42'' @ [LF],
      stderr = [], message = PyStr ''Grading server error: connection refused''\<rparr>"
  by (simp add: run_test_case_def ex_env_unreachable_def ex_runner_def grade_via_api_def normalize_42)

lemma ex_accept_result:
  "run_test_case ex_runner ex_env_accept ''1'' ''/workdir/sum.py'' ''python'' =
     \<lparr>test_id = ''1'', passed = True, status = ''AC'', time_ms = 5, stdout = ''42'' @ [LF],
      stderr = [], message = PyStr ''OK''\<rparr>"
  by (simp add: run_test_case_def ex_env_accept_def ex_runner_def grade_via_api_def
        grade_via_api_body_def normalize_42)

lemma ex_world_result:
  "run_grading ex_runner ex_world =
     Inr \<lparr>score = 1 / 2, passed = 1, total = 2, language = ''python'',
          test_results =
            [run_test_case ex_runner ex_env_accept ''1'' ''/workdir/sum.py'' ''python'',
             run_test_case ex_runner ex_env_unreachable ''2'' ''/workdir/sum.py'' ''python''],
          compilation_error = None\<rparr>"
  by (simp add: run_grading_def detect_solution_def ex_world_def get_test_cases_def
        get_test_cases_from_api_def Let_def ex_accept_result ex_unreachable_result
        path_join_def ex_runner_fields)

lemma ex_world_silent_compiler_result:
  "run_grading ex_runner ex_world_silent_compiler =
     Inr \<lparr>score = 0, passed = 0, total = 0, language = ''cpp'', test_results = [],
          compilation_error = Some []\<rparr>"
  by (simp add: run_grading_def detect_solution_def ex_world_silent_compiler_def compile_cpp_def)

text \<open>
  Claim C3.  If the request that grades a test case fails, because the call raises
  (connection error, timeout) or the response is not a 200, the runner's result for the
  test is not passed and its status is one of WA, RE and TLE, never AC.
\<close>

theorem fail_closed:
  assumes "\<forall>cmd returncode out err ms. run env cmd = RunCompleted returncode out err ms \<longrightarrow>
             request_failed (post_grade env (problem_id r) tid (runner_normalize_output out))"
  shows "\<not> test_result.passed (run_test_case r env tid executable lang) \<and>
         status (run_test_case r env tid executable lang) \<in> {''WA'', ''RE'', ''TLE''}"
proof (cases "run env (if lang = ''cpp'' then [executable] else [''python3'', executable])")
  case (RunRaises e)
  then show ?thesis by (simp add: run_test_case_def Let_def)
next
  case (RunCompleted returncode out err ms)
  with assms have failed:
    "request_failed (post_grade env (problem_id r) tid (runner_normalize_output out))"
    by blast
  show ?thesis
  proof (cases "grade_via_api r env tid (runner_normalize_output out)")
    case (Inl e)
    with RunCompleted show ?thesis by (simp add: run_test_case_def Let_def)
  next
    case (Inr pm)
    obtain p m where pm: "pm = (p, m)" by (cases pm)
    with Inr failed have "p = PyBool False" by (simp add: grade_via_api_failed)
    with RunCompleted Inr pm show ?thesis by (simp add: run_test_case_def Let_def)
  qed
qed

theorem fail_closed_witness:
  "request_failed (post_grade ex_env_unreachable (problem_id ex_runner) ''2'' ''42'') \<and>
   \<not> test_result.passed
       (run_test_case ex_runner ex_env_unreachable ''2'' ''/workdir/sum.py'' ''python'') \<and>
   status (run_test_case ex_runner ex_env_unreachable ''2'' ''/workdir/sum.py'' ''python'')
     \<in> {''WA'', ''RE'', ''TLE''}"
  using fail_closed [of ex_env_unreachable ex_runner "''2''" "''/workdir/sum.py''" "''python''"]
  by (simp add: request_failed_def ex_env_unreachable_def)

text \<open>
  Claim C10.  In every test result the runner produces, \<open>passed\<close> is true exactly when
  \<open>status\<close> is AC: for the result of one test case on every path, and for every entry
  of the results of a grading pass.
\<close>

theorem passed_iff_AC:
  "test_result.passed (run_test_case r env tid executable lang) =
     (status (run_test_case r env tid executable lang) = ''AC'') \<and>
   (run_grading r w = Inr g \<longrightarrow>
      (\<forall>t \<in> set (test_results g). test_result.passed t = (status t = ''AC'')))"
proof (rule conjI)
  show "test_result.passed (run_test_case r env tid executable lang) =
     (status (run_test_case r env tid executable lang) = ''AC'')"
    by (rule run_test_case_passed_AC)
next
  show "run_grading r w = Inr g \<longrightarrow>
      (\<forall>t \<in> set (test_results g). test_result.passed t = (status t = ''AC''))"
  proof (intro impI ballI)
    fix t
    assume g: "run_grading r w = Inr g" and t: "t \<in> set (test_results g)"
    from t have "test_results g \<noteq> []" by auto
    with g obtain executable lang tids n
      where "run_all r (test_envs w) executable lang 0 tids [] 0 = (test_results g, n)"
      by (auto simp: run_grading_def Let_def split: prod.splits option.splits bool.splits
            sum.splits if_splits)
    from run_all_members [OF this t] show "test_result.passed t = (status t = ''AC'')"
      using run_test_case_passed_AC by auto
  qed
qed

theorem passed_iff_AC_witness:
  "run_grading ex_runner ex_world =
     Inr \<lparr>score = 1 / 2, passed = 1, total = 2, language = ''python'',
          test_results =
            [run_test_case ex_runner ex_env_accept ''1'' ''/workdir/sum.py'' ''python'',
             run_test_case ex_runner ex_env_unreachable ''2'' ''/workdir/sum.py'' ''python''],
          compilation_error = None\<rparr> \<and>
   test_result.passed (run_test_case ex_runner ex_env_accept ''1'' ''/workdir/sum.py'' ''python'') =
     (status (run_test_case ex_runner ex_env_accept ''1'' ''/workdir/sum.py'' ''python'') = ''AC'') \<and>
   test_result.passed (run_test_case ex_runner ex_env_unreachable ''2'' ''/workdir/sum.py'' ''python'') =
     (status (run_test_case ex_runner ex_env_unreachable ''2'' ''/workdir/sum.py'' ''python'') = ''AC'')"
  using passed_iff_AC [of ex_runner ex_env_accept "''1''" "''/workdir/sum.py''" "''python''"
      ex_world "projr (run_grading ex_runner ex_world)"]
  by (simp add: ex_world_result)
text \<open>The three ways a grading pass ends before any test case runs.\<close>

definition no_solution :: "world \<Rightarrow> bool" where
  "no_solution w = (\<not> cpp_exists w \<and> \<not> py_exists w)"

definition compile_failed :: "world \<Rightarrow> bool" where
  "compile_failed w = (cpp_exists w \<and> \<not> fst (compile_cpp w))"

definition no_test_cases :: "world \<Rightarrow> bool" where
  "no_test_cases w = (\<not> no_solution w \<and> \<not> compile_failed w \<and> get_test_cases w = Inr [])"

text \<open>No solution file at all; and a Python solution for a problem without test cases.\<close>

definition ex_world_no_solution :: world where
  "ex_world_no_solution =
     \<lparr>cpp_exists = False, py_exists = False,
      compile_run = RunCompleted 0 [] [] 0,
      list_tests_api = ListResponse \<lparr>list_status = 200, list_json = Inr (Some [''1'', ''2''])\<rparr>,
      local_tests = Inr [],
      test_envs = (\<lambda>i tid. ex_env_accept)\<rparr>"

definition ex_world_no_tests :: world where
  "ex_world_no_tests =
     \<lparr>cpp_exists = False, py_exists = True,
      compile_run = RunCompleted 0 [] [] 0,
      list_tests_api = ListResponse \<lparr>list_status = 404, list_json = Inr None\<rparr>,
      local_tests = Inr [],
      test_envs = (\<lambda>i tid. ex_env_accept)\<rparr>"

lemma run_grading_no_solution:
  assumes "no_solution w"
  shows "run_grading r w =
     Inr \<lparr>score = 0, passed = 0, total = 0, language = ''unknown'', test_results = [],
          compilation_error = Some (''No solution file found. Expected '' @ problem_id r @
            ''.cpp or '' @ problem_id r @ ''.py in '' @ workdir r)\<rparr>"
  using assms by (simp add: run_grading_def detect_solution_def no_solution_def)

lemma run_grading_compile_failed:
  assumes "compile_failed w"
  shows "run_grading r w =
     Inr \<lparr>score = 0, passed = 0, total = 0, language = ''cpp'', test_results = [],
          compilation_error = Some (snd (compile_cpp w))\<rparr>"
proof -
  from assms obtain err where "compile_cpp w = (False, err)"
    by (cases "compile_cpp w") (auto simp: compile_failed_def)
  with assms show ?thesis
    by (simp add: run_grading_def detect_solution_def compile_failed_def)
qed

lemma run_grading_started:
  assumes "\<not> no_solution w" and "\<not> compile_failed w"
  shows "run_grading r w =
     (let lang = snd (detect_solution r w);
          executable = (if lang = ''cpp'' then path_join (workdir r) (problem_id r)
                        else the (fst (detect_solution r w)))
      in case get_test_cases w of
           Inl e \<Rightarrow> Inl e
         | Inr test_cases \<Rightarrow>
             if test_cases = [] then
               Inr \<lparr>score = 0, passed = 0, total = 0, language = lang, test_results = [],
                    compilation_error =
                      Some (''No test cases found for problem '' @ problem_id r)\<rparr>
             else
               (case run_all r (test_envs w) executable lang 0 test_cases [] 0 of
                  (results, n_passed) \<Rightarrow>
                    Inr \<lparr>score = real n_passed / real (length test_cases),
                         passed = n_passed, total = length test_cases,
                         language = lang, test_results = results,
                         compilation_error = None\<rparr>))"
proof (cases "cpp_exists w")
  case True
  with assms(2) obtain err where "compile_cpp w = (True, err)"
    by (cases "compile_cpp w") (auto simp: compile_failed_def)
  with True show ?thesis
    by (simp add: run_grading_def detect_solution_def Let_def split: sum.splits prod.splits)
next
  case False
  with assms(1) have "py_exists w" by (simp add: no_solution_def)
  with False show ?thesis
    by (simp add: run_grading_def detect_solution_def Let_def split: sum.splits prod.splits)
qed

text \<open>
  Claim C9, as the code has it.  Every grading result has \<open>score = passed / total\<close> when
  \<open>total > 0\<close> and \<open>score = 0\<close> when \<open>total = 0\<close>.  When the pass ends with a missing
  solution file, a compile error or no test cases, the result has \<open>score = 0\<close>,
  \<open>total = 0\<close>, no test results, and a \<open>compilation_error\<close> that is set: the fixed
  messages for a missing solution and for no test cases, and for a compile error the text
  \<^verbatim>\<open>_compile_cpp\<close> returns (the compiler's standard error, the timeout message or the
  exception's text), which is empty when that text is.
\<close>

theorem run_grading_score:
  assumes "run_grading r w = Inr g"
  shows "(0 < total g \<longrightarrow> score g = real (grading_result.passed g) / real (total g)) \<and>
         (total g = 0 \<longrightarrow> score g = 0) \<and>
         (no_solution w \<longrightarrow>
            score g = 0 \<and> total g = 0 \<and> test_results g = [] \<and>
            compilation_error g = Some (''No solution file found. Expected '' @ problem_id r @
              ''.cpp or '' @ problem_id r @ ''.py in '' @ workdir r)) \<and>
         (compile_failed w \<longrightarrow>
            score g = 0 \<and> total g = 0 \<and> test_results g = [] \<and>
            compilation_error g = Some (snd (compile_cpp w))) \<and>
         (no_test_cases w \<longrightarrow>
            score g = 0 \<and> total g = 0 \<and> test_results g = [] \<and>
            compilation_error g = Some (''No test cases found for problem '' @ problem_id r))"
proof (cases "no_solution w \<or> compile_failed w")
  case True
  then show ?thesis
  proof
    assume ns: "no_solution w"
    then have "\<not> compile_failed w" "\<not> no_test_cases w"
      by (simp_all add: no_solution_def compile_failed_def no_test_cases_def)
    with ns assms show ?thesis by (auto simp: run_grading_no_solution)
  next
    assume cf: "compile_failed w"
    then have "\<not> no_solution w" "\<not> no_test_cases w"
      by (simp_all add: no_solution_def compile_failed_def no_test_cases_def)
    with cf assms show ?thesis by (auto simp: run_grading_compile_failed)
  qed
next
  case False
  then have started: "\<not> no_solution w" "\<not> compile_failed w" by simp_all
  note rg = assms [unfolded run_grading_started [OF started]]
  show ?thesis
  proof (cases "get_test_cases w")
    case (Inl e)
    with rg show ?thesis by (simp add: Let_def)
  next
    case (Inr test_cases)
    show ?thesis
    proof (cases "test_cases = []")
      case True
      with Inr rg started show ?thesis by (auto simp: Let_def no_test_cases_def)
    next
      case False
      with Inr have "\<not> no_test_cases w" by (simp add: no_test_cases_def)
      with False Inr rg started show ?thesis
        by (auto simp: Let_def split: prod.splits)
    qed
  qed
qed

theorem run_grading_score_witness:
  "score (projr (run_grading ex_runner ex_world)) = 1 / 2 \<and>
   grading_result.passed (projr (run_grading ex_runner ex_world)) = 1 \<and>
   total (projr (run_grading ex_runner ex_world)) = 2 \<and>
   no_solution ex_world_no_solution \<and>
   compilation_error (projr (run_grading ex_runner ex_world_no_solution)) =
     Some ''No solution file found. Expected sum.cpp or sum.py in /workdir'' \<and>
   compile_failed ex_world_silent_compiler \<and>
   total (projr (run_grading ex_runner ex_world_silent_compiler)) = 0 \<and>
   no_test_cases ex_world_no_tests \<and>
   compilation_error (projr (run_grading ex_runner ex_world_no_tests)) =
     Some ''No test cases found for problem sum''"
proof -
  have 1: "run_grading ex_runner ex_world = Inr (projr (run_grading ex_runner ex_world))"
    by (simp add: ex_world_result)
  have 2: "run_grading ex_runner ex_world_no_solution =
             Inr (projr (run_grading ex_runner ex_world_no_solution))"
    by (simp add: run_grading_def detect_solution_def ex_world_no_solution_def)
  have 3: "run_grading ex_runner ex_world_silent_compiler =
             Inr (projr (run_grading ex_runner ex_world_silent_compiler))"
    by (simp add: ex_world_silent_compiler_result)
  have 4: "run_grading ex_runner ex_world_no_tests =
             Inr (projr (run_grading ex_runner ex_world_no_tests))"
    by (simp add: run_grading_def detect_solution_def ex_world_no_tests_def
          get_test_cases_def get_test_cases_from_api_def)
  have ns: "no_solution ex_world_no_solution"
    by (simp add: no_solution_def ex_world_no_solution_def)
  have cf: "compile_failed ex_world_silent_compiler"
    by (simp add: compile_failed_def compile_cpp_def ex_world_silent_compiler_def)
  have nt: "no_test_cases ex_world_no_tests"
    by (simp add: no_test_cases_def no_solution_def compile_failed_def ex_world_no_tests_def
          get_test_cases_def get_test_cases_from_api_def)
  show ?thesis
    using run_grading_score [OF 1] run_grading_score [OF 2] run_grading_score [OF 3]
      run_grading_score [OF 4] ns cf nt
    by (simp add: ex_world_result ex_runner_fields)
qed

text \<open>
  The claim as the specification states it asks for a non-empty \<open>compilation_error\<close>
  on every such ending.  A compiler run that ends with a non-zero return code and an
  empty standard error gives the empty string.
\<close>

theorem compilation_error_empty_counterexample:
  "compile_failed ex_world_silent_compiler \<and>
   run_grading ex_runner ex_world_silent_compiler =
     Inr \<lparr>score = 0, passed = 0, total = 0, language = ''cpp'', test_results = [],
          compilation_error = Some []\<rparr>"
proof (rule conjI)
  show "compile_failed ex_world_silent_compiler"
    by (simp add: compile_failed_def compile_cpp_def ex_world_silent_compiler_def)
next
  show "run_grading ex_runner ex_world_silent_compiler =
     Inr \<lparr>score = 0, passed = 0, total = 0, language = ''cpp'', test_results = [],
          compilation_error = Some []\<rparr>"
    by (rule ex_world_silent_compiler_result)
qed

section \<open>More of Python: splitting on white space, integers, indexing\<close>

text \<open>\<open>s.split()\<close>: the maximal runs of characters that are not white space.\<close>

fun split_ws_from :: "string \<Rightarrow> string \<Rightarrow> string list" where
  "split_ws_from cur [] = (if cur = [] then [] else [cur])"
| "split_ws_from cur (c # s) =
     (if py_isspace c then (if cur = [] then split_ws_from [] s else cur # split_ws_from [] s)
      else split_ws_from (cur @ [c]) s)"

definition split_ws :: "string \<Rightarrow> string list" where
  "split_ws s = split_ws_from [] s"

text \<open>
  \<open>int(s)\<close> on a string: white space around the literal is dropped, a sign may come
  first, then decimal digits, with single underscores allowed between digits.  \<open>None\<close>
  stands for the \<open>ValueError\<close>.  (Digits beyond ASCII and the interpreter's limit on
  the length of a literal are not modelled.)
\<close>

definition is_digit :: "char \<Rightarrow> bool" where
  "is_digit c = (48 \<le> (of_char c :: int) \<and> (of_char c :: int) \<le> 57)"

definition digit_val :: "char \<Rightarrow> int" where
  "digit_val c = of_char c - 48"

fun digitpart :: "bool \<Rightarrow> int \<Rightarrow> string \<Rightarrow> int option" where
  "digitpart after_digit acc [] = (if after_digit then Some acc else None)"
| "digitpart after_digit acc (c # s) =
     (if is_digit c then digitpart True (10 * acc + digit_val c) s
      else if c = CHR ''_'' \<and> after_digit then digitpart False acc s
      else None)"

definition py_int :: "string \<Rightarrow> int option" where
  "py_int s =
     (case strip s of
        [] \<Rightarrow> None
      | c # r \<Rightarrow>
          if c = CHR ''-'' then map_option uminus (digitpart False 0 r)
          else if c = CHR ''+'' then digitpart False 0 r
          else digitpart False 0 (c # r))"

text \<open>\<open>repr(s)\<close> of a string, for the text of a \<open>ValueError\<close>: the string in single
  quotes (the escaping of quotes and control characters is not modelled).\<close>

definition py_repr :: "string \<Rightarrow> string" where
  "py_repr s = [CHR 0x27] @ s @ [CHR 0x27]"

definition int_of_str :: "string \<Rightarrow> pyexn + int" where
  "int_of_str s =
     (case py_int s of
        None \<Rightarrow> Inl (PyExn ValueError (''invalid literal for int() with base 10: '' @ py_repr s))
      | Some i \<Rightarrow> Inr i)"

text \<open>\<open>xs[i]\<close>: a negative index counts from the end, an index out of range raises.\<close>

definition py_index :: "nat \<Rightarrow> int \<Rightarrow> pyexn + nat" where
  "py_index n i =
     (if 0 \<le> i \<and> i < int n then Inr (nat i)
      else if - int n \<le> i \<and> i < 0 then Inr (nat (i + int n))
      else Inl (PyExn IndexError ''list index out of range''))"

definition py_nth :: "'a list \<Rightarrow> int \<Rightarrow> pyexn + 'a" where
  "py_nth xs i = (case py_index (length xs) i of Inl e \<Rightarrow> Inl e | Inr j \<Rightarrow> Inr (xs ! j))"

text \<open>
  \<open>x1, ..., xn = map(int, tokens)\<close>: the map is lazy, so the tokens are converted one by
  one while the tuple is unpacked, and one token beyond the \<open>n\<close>-th is converted before
  the unpacking complains that there are too many.
\<close>

fun unpack_ints_from :: "nat \<Rightarrow> nat \<Rightarrow> string list \<Rightarrow> pyexn + int list" where
  "unpack_ints_from n got [] =
     (if got = n then Inr []
      else Inl (PyExn ValueError (''not enough values to unpack (expected '' @ str_nat n @
                  '', got '' @ str_nat got @ '')'')))"
| "unpack_ints_from n got (t # ts) =
     (case int_of_str t of
        Inl e \<Rightarrow> Inl e
      | Inr i \<Rightarrow>
          if got = n then
            Inl (PyExn ValueError (''too many values to unpack (expected '' @ str_nat n @ '')''))
          else (case unpack_ints_from n (got + 1) ts of
                  Inl e \<Rightarrow> Inl e
                | Inr is \<Rightarrow> Inr (i # is)))"

definition unpack_ints :: "nat \<Rightarrow> string list \<Rightarrow> pyexn + int list" where
  "unpack_ints n tokens = unpack_ints_from n 0 tokens"

text \<open>Sequencing of steps that may raise: the first exception ends the computation.\<close>

definition then_do :: "pyexn + 'a \<Rightarrow> ('a \<Rightarrow> pyexn + 'b) \<Rightarrow> pyexn + 'b" where
  "then_do step rest = (case step of Inl e \<Rightarrow> Inl e | Inr v \<Rightarrow> rest v)"

text \<open>\<open>v.strip()\<close> on a value from the request: only a string has the method.\<close>

fun strip_val :: "pyval \<Rightarrow> pyexn + string" where
  "strip_val (PyStr s) = Inr (strip s)"
| "strip_val v =
     Inl (PyExn AttributeError
       ([CHR 0x27] @ py_type_name v @ [CHR 0x27] @ '' object has no attribute '' @
        [CHR 0x27] @ ''strip'' @ [CHR 0x27]))"

section \<open>The checkers\<close>

text \<open>
  A checker gets the problem id, the test's input, the expected output and the actual
  output and returns \<open>(passed, message)\<close>.  The input and the expected output are read
  from files, so they are strings; the actual output is the \<open>actual_output\<close> entry of
  the request, any JSON value.  The three custom checkers run inside
  \<^verbatim>\<open>try: ... except Exception as e: return False, f"Checker error: {str(e)}"\<close>.
\<close>

definition catch_all :: "pyexn + bool \<times> string \<Rightarrow> bool \<times> string" where
  "catch_all body =
     (case body of Inl e \<Rightarrow> (False, ''Checker error: '' @ exn_str e) | Inr res \<Rightarrow> res)"

subsection \<open>\<^verbatim>\<open>_count_distinct_in_intervals\<close>\<close>

text \<open>The loop that merges the sorted intervals, with the list \<open>merged\<close> and the
  current interval \<open>(curr_start, curr_end)\<close> as its state.\<close>

fun merge_loop :: "(int \<times> int) list \<Rightarrow> int \<Rightarrow> int \<Rightarrow> (int \<times> int) list \<Rightarrow> (int \<times> int) list" where
  "merge_loop merged curr_start curr_end [] = merged @ [(curr_start, curr_end)]"
| "merge_loop merged curr_start curr_end ((start, end') # rest) =
     (if start \<le> curr_end + 1 then merge_loop merged curr_start (max curr_end end') rest
      else merge_loop (merged @ [(curr_start, curr_end)]) start end' rest)"

text \<open>\<open>sorted\<close> on a list of pairs compares them lexicographically, which is the order
  of pairs here.\<close>

definition count_distinct_in_intervals :: "(int \<times> int) list \<Rightarrow> int" where
  "count_distinct_in_intervals intervals =
     (if intervals = [] then 0
      else
        (case sort intervals of
           [] \<Rightarrow> 0
         | (curr_start, curr_end) # rest \<Rightarrow>
             (\<Sum>(start, end') \<leftarrow> merge_loop [] curr_start curr_end rest. end' - start + 1)))"

subsection \<open>\<^verbatim>\<open>checker_kolekcija\<close>\<close>

text \<open>The loop that reads the \<open>m\<close> playlist entries from the input lines \<open>2 .. m + 1\<close>.\<close>

fun read_songs :: "string list \<Rightarrow> int list \<Rightarrow> pyexn + int list" where
  "read_songs input_lines [] = Inr []"
| "read_songs input_lines (i # is) =
     (case py_nth input_lines i of
        Inl e \<Rightarrow> Inl e
      | Inr line \<Rightarrow>
          (case int_of_str (strip line) of
             Inl e \<Rightarrow> Inl e
           | Inr song \<Rightarrow>
               (case read_songs input_lines is of
                  Inl e \<Rightarrow> Inl e
                | Inr songs \<Rightarrow> Inr (song # songs))))"

text \<open>One round of the loop that reads the intervals: \<open>Inl\<close> is the checker's early
  return.  A \<open>ValueError\<close> or \<open>IndexError\<close> in the round is caught there.\<close>

definition read_interval :: "string list \<Rightarrow> int \<Rightarrow> bool \<times> string + int \<times> int" where
  "read_interval actual_lines i =
     (case py_nth actual_lines i of
        Inl e \<Rightarrow> Inl (False, ''Invalid interval on line '' @ str_int (i + 1))
      | Inr line \<Rightarrow>
          (let parts = split_ws (strip line) in
           if length parts \<noteq> 2 then
             Inl (False, ''Invalid interval format on line '' @ str_int (i + 1))
           else
             (case (py_int (parts ! 0), py_int (parts ! 1)) of
                (Some a, Some b) \<Rightarrow> Inr (a, b)
              | _ \<Rightarrow> Inl (False, ''Invalid interval on line '' @ str_int (i + 1)))))"

fun read_intervals :: "string list \<Rightarrow> int list \<Rightarrow> bool \<times> string + (int \<times> int) list" where
  "read_intervals actual_lines [] = Inr []"
| "read_intervals actual_lines (i # is) =
     (case read_interval actual_lines i of
        Inl ret \<Rightarrow> Inl ret
      | Inr ab \<Rightarrow>
          (case read_intervals actual_lines is of
             Inl ret \<Rightarrow> Inl ret
           | Inr intervals \<Rightarrow> Inr (ab # intervals)))"

text \<open>The loop over \<open>enumerate(zip(songs, intervals))\<close>: \<open>Some\<close> is the early return.\<close>

fun validate_intervals ::
  "int \<Rightarrow> int \<Rightarrow> nat \<Rightarrow> (int \<times> int \<times> int) list \<Rightarrow> (bool \<times> string) option" where
  "validate_intervals n k i [] = None"
| "validate_intervals n k i ((song, a, b) # rest) =
     (if b - a + 1 \<noteq> k then
        Some (False, ''Interval '' @ str_nat (i + 1) @ '' has length '' @ str_int (b - a + 1) @
                     '', expected '' @ str_int k)
      else if a < 1 \<or> b > n then
        Some (False, ''Interval '' @ str_nat (i + 1) @ '' ['' @ str_int a @ '', '' @ str_int b @
                     ''] out of bounds [1, '' @ str_int n @ '']'')
      else if \<not> (a \<le> song \<and> song \<le> b) then
        Some (False, ''Song '' @ str_int song @ '' not in interval ['' @ str_int a @ '', '' @
                     str_int b @ '']'')
      else validate_intervals n k (i + 1) rest)"

text \<open>The statements that parse the input: \<open>n\<close>, \<open>k\<close>, \<open>m\<close> and the \<open>m\<close> songs.\<close>

definition kolekcija_input :: "string list \<Rightarrow> pyexn + int \<times> int \<times> int \<times> int list" where
  "kolekcija_input input_lines =
     then_do (py_nth input_lines 0) (\<lambda>line0.
     let first_line = split_ws line0 in
     then_do (py_nth first_line 0) (\<lambda>tok0.
     then_do (int_of_str tok0) (\<lambda>n.
     then_do (py_nth first_line 1) (\<lambda>tok1.
     then_do (int_of_str tok1) (\<lambda>k.
     then_do (py_nth input_lines 1) (\<lambda>line1.
     then_do (int_of_str (strip line1)) (\<lambda>m.
     then_do (read_songs input_lines [2..2 + m - 1]) (\<lambda>songs.
     Inr (n, k, m, songs)))))))))"

text \<open>The statements from \<^verbatim>\<open>if len(actual_lines) < 1\<close> to the end.\<close>

definition kolekcija_verdict ::
  "int \<Rightarrow> int \<Rightarrow> int \<Rightarrow> int list \<Rightarrow> int \<Rightarrow> string list \<Rightarrow> pyexn + bool \<times> string" where
  "kolekcija_verdict n k m songs expected_accesses actual_lines =
     (if length actual_lines < 1 then Inr (False, ''No output'')
      else
        then_do (py_nth actual_lines 0) (\<lambda>aline0.
        case py_int (strip aline0) of
          None \<Rightarrow> Inr (False, ''Invalid disk accesses: '' @ aline0)
        | Some actual_accesses \<Rightarrow>
            if actual_accesses \<noteq> expected_accesses then
              Inr (False, ''Disk accesses mismatch: expected '' @ str_int expected_accesses @
                          '', got '' @ str_int actual_accesses)
            else if int (length actual_lines) < m + 1 then
              Inr (False, ''Expected '' @ str_int m @ '' intervals, got '' @
                          str_int (int (length actual_lines) - 1))
            else
              (case read_intervals actual_lines [1..m] of
                 Inl ret \<Rightarrow> Inr ret
               | Inr intervals \<Rightarrow>
                   (case validate_intervals n k 0 (zip songs intervals) of
                      Some ret \<Rightarrow> Inr ret
                    | None \<Rightarrow>
                        (let distinct_count = count_distinct_in_intervals intervals in
                         if distinct_count \<noteq> actual_accesses then
                           Inr (False, ''Actual disk accesses should be '' @
                                       str_int distinct_count @ '', claimed '' @
                                       str_int actual_accesses)
                         else Inr (True, ''OK''))))))"

definition checker_kolekcija :: "string \<Rightarrow> string \<Rightarrow> string \<Rightarrow> pyval \<Rightarrow> bool \<times> string" where
  "checker_kolekcija pid input_data expected actual =
     catch_all
       (let input_lines = split_on LF (strip input_data);
            expected_lines = split_on LF (strip expected)
        in
        then_do (strip_val actual) (\<lambda>actual_stripped.
        let actual_lines = split_on LF actual_stripped in
        then_do (kolekcija_input input_lines) (\<lambda>(n, k, m, songs).
        then_do (py_nth expected_lines 0) (\<lambda>eline0.
        then_do (int_of_str (strip eline0)) (\<lambda>expected_accesses.
        kolekcija_verdict n k m songs expected_accesses actual_lines)))))"

subsection \<open>Facts about \<^verbatim>\<open>_count_distinct_in_intervals\<close>\<close>

text \<open>The integers a list of intervals covers.\<close>

definition covered :: "(int \<times> int) list \<Rightarrow> int set" where
  "covered intervals = (\<Union>(a, b) \<in> set intervals. {a..b})"

lemma covered_Nil [simp]: "covered [] = {}"
  by (simp add: covered_def)

lemma covered_Cons [simp]: "covered ((a, b) # rest) = {a..b} \<union> covered rest"
  by (simp add: covered_def)

lemma finite_covered [simp]: "finite (covered intervals)"
  by (auto simp: covered_def)

lemma covered_lower_bound:
  assumes "\<forall>(a, b) \<in> set intervals. lo \<le> a" and "x \<in> covered intervals"
  shows "lo \<le> x"
  using assms by (fastforce simp: covered_def)

lemma merge_loop_sum:
  assumes "\<forall>(a, b) \<in> set rest. a \<le> b" and "curr_start \<le> curr_end"
      and "sorted (map fst rest)" and "\<forall>(a, b) \<in> set rest. curr_start \<le> a"
  shows "(\<Sum>(a, b) \<leftarrow> merge_loop merged curr_start curr_end rest. b - a + 1) =
         (\<Sum>(a, b) \<leftarrow> merged. b - a + 1) +
         int (card ({curr_start..curr_end} \<union> covered rest))"
  using assms
proof (induction rest arbitrary: merged curr_start curr_end)
  case Nil
  then show ?case by simp
next
  case (Cons iv rest)
  obtain s e where iv: "iv = (s, e)" by (cases iv)
  from Cons.prems iv have se: "s \<le> e" and cs: "curr_start \<le> s"
    and sorted_rest: "sorted (map fst rest)" and ne_rest: "\<forall>(a, b) \<in> set rest. a \<le> b"
    and lower: "\<forall>(a, b) \<in> set rest. s \<le> a"
    by auto
  show ?case
  proof (cases "s \<le> curr_end + 1")
    case True
    have "\<forall>(a, b) \<in> set rest. curr_start \<le> a"
      using lower cs by fastforce
    moreover have "curr_start \<le> max curr_end e"
      using Cons.prems(2) by simp
    ultimately have
      "(\<Sum>(a, b) \<leftarrow> merge_loop merged curr_start (max curr_end e) rest. b - a + 1) =
       (\<Sum>(a, b) \<leftarrow> merged. b - a + 1) +
       int (card ({curr_start..max curr_end e} \<union> covered rest))"
      using Cons.IH [of curr_start "max curr_end e" merged] ne_rest sorted_rest by simp
    moreover have "{curr_start..curr_end} \<union> {s..e} = {curr_start..max curr_end e}"
      using True cs se Cons.prems(2) by auto
    then have "{curr_start..curr_end} \<union> covered (iv # rest) =
               {curr_start..max curr_end e} \<union> covered rest"
      unfolding iv covered_Cons by blast
    ultimately show ?thesis
      using True iv by simp
  next
    case False
    have ih: "(\<Sum>(a, b) \<leftarrow> merge_loop (merged @ [(curr_start, curr_end)]) s e rest. b - a + 1) =
       (\<Sum>(a, b) \<leftarrow> merged @ [(curr_start, curr_end)]. b - a + 1) +
       int (card ({s..e} \<union> covered rest))"
      using Cons.IH [of s e "merged @ [(curr_start, curr_end)]"] ne_rest sorted_rest se lower
      by simp
    have ge: "\<forall>x \<in> {s..e} \<union> covered rest. s \<le> x"
      using covered_lower_bound [OF lower] by auto
    have "x \<notin> {curr_start..curr_end}" if "x \<in> {s..e} \<union> covered rest" for x
    proof -
      from that ge have "s \<le> x" by blast
      with False show ?thesis by simp
    qed
    then have disjoint: "{curr_start..curr_end} \<inter> ({s..e} \<union> covered rest) = {}"
      by blast
    have "card ({curr_start..curr_end} \<union> ({s..e} \<union> covered rest)) =
          card {curr_start..curr_end} + card ({s..e} \<union> covered rest)"
      by (rule card_Un_disjoint) (simp_all add: disjoint)
    then have "int (card ({curr_start..curr_end} \<union> ({s..e} \<union> covered rest))) =
          (curr_end - curr_start + 1) + int (card ({s..e} \<union> covered rest))"
      using Cons.prems(2) by simp
    then have "int (card ({curr_start..curr_end} \<union> covered (iv # rest))) =
          (curr_end - curr_start + 1) + int (card ({s..e} \<union> covered rest))"
      unfolding iv covered_Cons .
    with ih False iv show ?thesis by simp
  qed
qed

lemma sorted_pairs_fst:
  fixes xs :: "(int \<times> int) list"
  assumes "sorted xs"
  shows "sorted (map fst xs)"
  using assms
proof (induction xs)
  case Nil
  then show ?case by simp
next
  case (Cons x xs)
  then have "\<forall>y \<in> set xs. x \<le> y" and "sorted (map fst xs)" by simp_all
  moreover have "fst x \<le> fst y" if "x \<le> y" for y
    using that by (cases x; cases y) (auto simp: less_eq_prod_def)
  ultimately show ?case by simp
qed

text \<open>On intervals none of which is empty, the function counts the integers covered.\<close>

lemma count_distinct_in_intervals_card:
  assumes "\<forall>(a, b) \<in> set intervals. a \<le> b"
  shows "count_distinct_in_intervals intervals = int (card (covered intervals))"
proof (cases "sort intervals")
  case Nil
  then have "intervals = []"
    by (metis length_0_conv length_sort)
  then show ?thesis by (simp add: count_distinct_in_intervals_def)
next
  case (Cons iv rest)
  obtain s e where iv: "iv = (s, e)" by (cases iv)
  have set_eq: "set intervals = set ((s, e) # rest)"
    using Cons iv by (metis set_sort)
  have "sorted (sort intervals)"
    by (rule sorted_sort)
  then have sorted_all: "sorted (map fst ((s, e) # rest))"
    using Cons iv sorted_pairs_fst [of "sort intervals"] by simp
  have "\<forall>(a, b) \<in> set rest. a \<le> b" and "s \<le> e"
    using assms set_eq by auto
  moreover have "sorted (map fst rest)" and "\<forall>(a, b) \<in> set rest. s \<le> a"
    using sorted_all by auto
  ultimately have
    "(\<Sum>(a, b) \<leftarrow> merge_loop [] s e rest. b - a + 1) = int (card ({s..e} \<union> covered rest))"
    using merge_loop_sum [of rest s e "[]"] by simp
  moreover have "covered intervals = {s..e} \<union> covered rest"
    using set_eq by (simp add: covered_def)
  moreover have "intervals \<noteq> []"
    using set_eq by auto
  ultimately show ?thesis
    using Cons iv by (simp add: count_distinct_in_intervals_def)
qed
subsection \<open>Facts about \<^verbatim>\<open>checker_kolekcija\<close>\<close>

lemma then_do_Inr_iff:
  "then_do step rest = Inr res \<longleftrightarrow> (\<exists>v. step = Inr v \<and> rest v = Inr res)"
  by (cases step) (simp_all add: then_do_def)

lemma catch_all_fst: "fst (catch_all body) \<longleftrightarrow> (\<exists>msg. body = Inr (True, msg))"
  by (cases body) (auto simp: catch_all_def)

lemma py_nth_0: "xs \<noteq> [] \<Longrightarrow> py_nth xs 0 = Inr (hd xs)"
  by (cases xs) (simp_all add: py_nth_def py_index_def)

lemma int_of_str_Inr_iff: "int_of_str s = Inr i \<longleftrightarrow> py_int s = Some i"
  by (simp add: int_of_str_def split: option.splits)

lemma read_songs_length: "read_songs input_lines is = Inr songs \<Longrightarrow> length songs = length is"
  by (induction "is" arbitrary: songs) (auto simp: split: sum.splits)

lemma read_intervals_length:
  "read_intervals actual_lines is = Inr intervals \<Longrightarrow> length intervals = length is"
  by (induction "is" arbitrary: intervals) (auto split: sum.splits)

lemma read_interval_rejects: "read_interval actual_lines i = Inl ret \<Longrightarrow> \<not> fst ret"
  by (auto simp: read_interval_def Let_def split: sum.splits option.splits if_splits)

lemma read_intervals_rejects: "read_intervals actual_lines is = Inl ret \<Longrightarrow> \<not> fst ret"
  by (induction "is") (auto split: sum.splits dest: read_interval_rejects)

lemma validate_intervals_rejects: "validate_intervals n k i zs = Some ret \<Longrightarrow> \<not> fst ret"
  by (induction n k i zs rule: validate_intervals.induct) (auto split: if_splits)

lemma validate_intervals_None_iff:
  "validate_intervals n k i zs = None \<longleftrightarrow>
     (\<forall>(song, a, b) \<in> set zs. b - a + 1 = k \<and> 1 \<le> a \<and> b \<le> n \<and> a \<le> song \<and> song \<le> b)"
  by (induction n k i zs rule: validate_intervals.induct) auto

text \<open>The claimed number of disk accesses and the \<open>m\<close> windows of an output, when its
  first line is an integer, it has at least \<open>m + 1\<close> lines, and each of the lines
  \<open>1 .. m\<close> holds two integers.\<close>

definition kolekcija_output :: "int \<Rightarrow> string list \<Rightarrow> (int \<times> (int \<times> int) list) option" where
  "kolekcija_output m actual_lines =
     (case py_int (strip (hd actual_lines)) of
        None \<Rightarrow> None
      | Some claimed \<Rightarrow>
          if int (length actual_lines) < m + 1 then None
          else (case read_intervals actual_lines [1..m] of
                  Inl ret \<Rightarrow> None
                | Inr windows \<Rightarrow> Some (claimed, windows)))"

lemma kolekcija_verdict_accepts_iff:
  assumes "actual_lines \<noteq> []"
  shows "(\<exists>msg. kolekcija_verdict n k m songs expected_accesses actual_lines = Inr (True, msg)) \<longleftrightarrow>
         (\<exists>claimed windows.
            kolekcija_output m actual_lines = Some (claimed, windows) \<and>
            claimed = expected_accesses \<and>
            validate_intervals n k 0 (zip songs windows) = None \<and>
            count_distinct_in_intervals windows = claimed)"
proof -
  have len: "\<not> length actual_lines < 1" using assms by (cases actual_lines) simp_all
  show ?thesis
  proof (cases "py_int (strip (hd actual_lines))")
    case None
    with assms len show ?thesis
      by (simp add: kolekcija_verdict_def kolekcija_output_def py_nth_0 then_do_def)
  next
    case (Some claimed)
    show ?thesis
    proof (cases "claimed \<noteq> expected_accesses \<or> int (length actual_lines) < m + 1")
      case True
      with Some assms len show ?thesis
        by (auto simp: kolekcija_verdict_def kolekcija_output_def py_nth_0 then_do_def
              split: sum.splits)
    next
      case False
      show ?thesis
      proof (cases "read_intervals actual_lines [1..m]")
        case (Inl ret)
        then have "\<not> fst ret" by (rule read_intervals_rejects)
        then have "ret \<noteq> (True, msg)" for msg by auto
        with Inl Some False assms len show ?thesis
          by (simp add: kolekcija_verdict_def kolekcija_output_def py_nth_0 then_do_def)
      next
        case (Inr windows)
        show ?thesis
        proof (cases "validate_intervals n k 0 (zip songs windows)")
          case None
          with Inr Some False assms len show ?thesis
            by (simp add: kolekcija_verdict_def kolekcija_output_def py_nth_0 then_do_def Let_def)
        next
          case (Some ret)
          then have "\<not> fst ret" by (rule validate_intervals_rejects)
          then have "ret \<noteq> (True, msg)" for msg by auto
          with Some Inr \<open>py_int (strip (hd actual_lines)) = Some claimed\<close> False assms len
          show ?thesis
            by (simp add: kolekcija_verdict_def kolekcija_output_def py_nth_0 then_do_def)
        qed
      qed
    qed
  qed
qed

lemma kolekcija_input_length:
  assumes "kolekcija_input input_lines = Inr (n, k, m, songs)"
  shows "length songs = nat m"
proof -
  from assms have "read_songs input_lines [2..2 + m - 1] = Inr songs"
    by (auto simp: kolekcija_input_def then_do_Inr_iff Let_def int_of_str_Inr_iff)
  then have "length songs = length [2..2 + m - 1]" by (rule read_songs_length)
  then show ?thesis by simp
qed

lemma kolekcija_output_length:
  assumes "kolekcija_output m actual_lines = Some (claimed, windows)"
  shows "length windows = nat m"
proof -
  from assms have "read_intervals actual_lines [1..m] = Inr windows"
    by (auto simp: kolekcija_output_def split: option.splits if_splits sum.splits)
  then have "length windows = length [1..m]" by (rule read_intervals_length)
  then show ?thesis by simp
qed

text \<open>A window that holds its song is not empty, so the merge counts what the windows cover.\<close>

lemma valid_windows_count:
  assumes "length songs = length windows"
      and "\<forall>(song, a, b) \<in> set (zip songs windows). a \<le> song \<and> song \<le> b"
  shows "count_distinct_in_intervals windows = int (card (covered windows))"
proof (rule count_distinct_in_intervals_card)
  have "\<forall>w \<in> set windows. fst w \<le> snd w"
  proof
    fix w assume "w \<in> set windows"
    then obtain i where i: "i < length windows" "w = windows ! i"
      by (auto simp: in_set_conv_nth)
    with assms(1) have "(songs ! i, w) \<in> set (zip songs windows)"
      by (auto simp: in_set_zip)
    with assms(2) show "fst w \<le> snd w" by (cases w) auto
  qed
  then show "\<forall>(a, b) \<in> set windows. a \<le> b" by auto
qed

text \<open>
  Claim C8.  \<^verbatim>\<open>checker_kolekcija\<close> accepts an output exactly when the input, the
  expected output and the output parse (\<open>n\<close>, \<open>k\<close>, \<open>m\<close> and the \<open>m\<close> songs; the
  expected number of disk accesses; the claimed number and \<open>m\<close> windows) and: the claimed
  number equals the expected one; every window \<open>[a, b]\<close> has \<open>b - a + 1 = k\<close>, lies
  within \<open>[1, n]\<close> and holds its song; and the number of distinct integers the \<open>m\<close>
  windows cover, which is what the sort-and-merge computes on such windows, equals the
  claimed number.
\<close>

theorem checker_kolekcija_accepts_iff:
  "fst (checker_kolekcija pid input_data expected (PyStr actual)) \<longleftrightarrow>
   (\<exists>n k m songs expected_accesses claimed windows.
      kolekcija_input (split_on LF (strip input_data)) = Inr (n, k, m, songs) \<and>
      py_int (strip (hd (split_on LF (strip expected)))) = Some expected_accesses \<and>
      kolekcija_output m (split_on LF (strip actual)) = Some (claimed, windows) \<and>
      length songs = nat m \<and> length windows = nat m \<and>
      claimed = expected_accesses \<and>
      (\<forall>(song, a, b) \<in> set (zip songs windows).
         b - a + 1 = k \<and> 1 \<le> a \<and> b \<le> n \<and> a \<le> song \<and> song \<le> b) \<and>
      int (card (covered windows)) = claimed)"
  (is "?lhs \<longleftrightarrow> ?rhs")
proof
  assume ?lhs
  then obtain msg n k m songs expected_accesses where
    inp: "kolekcija_input (split_on LF (strip input_data)) = Inr (n, k, m, songs)" and
    exp: "py_int (strip (hd (split_on LF (strip expected)))) = Some expected_accesses" and
    verdict: "kolekcija_verdict n k m songs expected_accesses (split_on LF (strip actual)) =
                Inr (True, msg)"
    by (auto simp: checker_kolekcija_def catch_all_fst Let_def then_do_Inr_iff py_nth_0
          int_of_str_Inr_iff)
  from verdict obtain claimed windows where
    out: "kolekcija_output m (split_on LF (strip actual)) = Some (claimed, windows)" and
    eq: "claimed = expected_accesses" and
    valid: "validate_intervals n k 0 (zip songs windows) = None" and
    cnt: "count_distinct_in_intervals windows = claimed"
    using kolekcija_verdict_accepts_iff [of "split_on LF (strip actual)" n k m songs expected_accesses]
    by auto
  have len: "length songs = nat m" "length windows = nat m"
    using inp out by (simp_all add: kolekcija_input_length kolekcija_output_length)
  from valid have all: "\<forall>(song, a, b) \<in> set (zip songs windows).
         b - a + 1 = k \<and> 1 \<le> a \<and> b \<le> n \<and> a \<le> song \<and> song \<le> b"
    by (simp add: validate_intervals_None_iff)
  then have "\<forall>(song, a, b) \<in> set (zip songs windows). a \<le> song \<and> song \<le> b"
    by fastforce
  with len have card: "count_distinct_in_intervals windows = int (card (covered windows))"
    by (intro valid_windows_count) simp_all
  from inp exp out len eq all card cnt show ?rhs
    by (intro exI conjI) simp_all
next
  assume ?rhs
  then obtain n k m songs expected_accesses claimed windows where
    inp: "kolekcija_input (split_on LF (strip input_data)) = Inr (n, k, m, songs)" and
    exp: "py_int (strip (hd (split_on LF (strip expected)))) = Some expected_accesses" and
    out: "kolekcija_output m (split_on LF (strip actual)) = Some (claimed, windows)" and
    eq: "claimed = expected_accesses" and
    len: "length songs = nat m" "length windows = nat m" and
    all: "\<forall>(song, a, b) \<in> set (zip songs windows).
         b - a + 1 = k \<and> 1 \<le> a \<and> b \<le> n \<and> a \<le> song \<and> song \<le> b" and
    cnt: "int (card (covered windows)) = claimed"
    by blast
  from all have "\<forall>(song, a, b) \<in> set (zip songs windows). a \<le> song \<and> song \<le> b"
    by fastforce
  with len have card: "count_distinct_in_intervals windows = int (card (covered windows))"
    by (intro valid_windows_count) simp_all
  from all have "validate_intervals n k 0 (zip songs windows) = None"
    by (simp add: validate_intervals_None_iff)
  with out eq card cnt obtain msg where
    "kolekcija_verdict n k m songs expected_accesses (split_on LF (strip actual)) = Inr (True, msg)"
    using kolekcija_verdict_accepts_iff [of "split_on LF (strip actual)" n k m songs expected_accesses]
    by auto
  with inp exp show ?lhs
    by (simp add: checker_kolekcija_def catch_all_fst Let_def then_do_def py_nth_0
          int_of_str_def)
qed

text \<open>The example of the specification: \<open>N = 10\<close>, \<open>K = 3\<close>, the playlist 5, 6, 7 and the
  windows (4, 6), (5, 7), (6, 8), which cover the five ids 4 to 8.\<close>

definition ex_kolekcija_input :: string where
  "ex_kolekcija_input =
     ''10 3'' @ [LF] @ ''3'' @ [LF] @ ''5'' @ [LF] @ ''6'' @ [LF] @ ''7'' @ [LF]"

definition ex_kolekcija_expected :: string where
  "ex_kolekcija_expected = ''5'' @ [LF]"

definition ex_kolekcija_actual :: string where
  "ex_kolekcija_actual = ''5'' @ [LF] @ ''4 6'' @ [LF] @ ''5 7'' @ [LF] @ ''6 8''"

lemma ex_kolekcija_accepted:
  "checker_kolekcija ''kolekcija'' ex_kolekcija_input ex_kolekcija_expected
     (PyStr ex_kolekcija_actual) = (True, ''OK'')"
  by code_simp

lemma ex_kolekcija_output:
  "kolekcija_output 3 (split_on LF (strip ex_kolekcija_actual)) = Some (5, [(4, 6), (5, 7), (6, 8)])"
  by code_simp

lemma ex_kolekcija_parsed:
  "kolekcija_input (split_on LF (strip ex_kolekcija_input)) = Inr (10, 3, 3, [5, 6, 7])"
  by code_simp

theorem checker_kolekcija_accepts_iff_witness:
  "fst (checker_kolekcija ''kolekcija'' ex_kolekcija_input ex_kolekcija_expected
     (PyStr ex_kolekcija_actual)) \<and>
   int (card (covered [(4, 6), (5, 7), (6, 8)])) = 5"
proof -
  have accepted: "fst (checker_kolekcija ''kolekcija'' ex_kolekcija_input ex_kolekcija_expected
     (PyStr ex_kolekcija_actual))"
    by (simp add: ex_kolekcija_accepted)
  then obtain n k m songs expected_accesses claimed windows where
    "kolekcija_input (split_on LF (strip ex_kolekcija_input)) = Inr (n, k, m, songs)" and
    "kolekcija_output m (split_on LF (strip ex_kolekcija_actual)) = Some (claimed, windows)" and
    "int (card (covered windows)) = claimed"
    using checker_kolekcija_accepts_iff [of "''kolekcija''" ex_kolekcija_input
        ex_kolekcija_expected ex_kolekcija_actual]
    by blast
  then have "int (card (covered [(4, 6), (5, 7), (6, 8)])) = 5"
    by (simp add: ex_kolekcija_parsed ex_kolekcija_output)
  with accepted show ?thesis by simp
qed

subsection \<open>\<^verbatim>\<open>checker_pastele\<close>\<close>

text \<open>
  The counting array \<open>count\<close> (here \<open>cnt\<close>) of 256 by 256 by 256 integers is a function on the index
  triples.  \<open>count[r][g][b]\<close> with integers \<open>r\<close>, \<open>g\<close>, \<open>b\<close> indexes three lists of
  length 256 in turn, so each index may be negative (counting from the end) and raises
  when it is out of range.
\<close>

type_synonym counts = "nat \<times> nat \<times> nat \<Rightarrow> int"

definition index3 :: "int \<Rightarrow> int \<Rightarrow> int \<Rightarrow> pyexn + nat \<times> nat \<times> nat" where
  "index3 r g b =
     then_do (py_index 256 r) (\<lambda>i.
     then_do (py_index 256 g) (\<lambda>j.
     then_do (py_index 256 b) (\<lambda>l.
     Inr (i, j, l))))"

text \<open>The loop that counts the \<open>n\<close> crayons of the input lines \<open>1 .. n\<close>.\<close>

fun load_crayons :: "string list \<Rightarrow> int list \<Rightarrow> counts \<Rightarrow> pyexn + counts" where
  "load_crayons input_lines [] cnt = Inr cnt"
| "load_crayons input_lines (i # is) cnt =
     then_do (py_nth input_lines i) (\<lambda>line.
     then_do (unpack_ints 3 (split_ws line)) (\<lambda>rgb.
     then_do (index3 (rgb ! 0) (rgb ! 1) (rgb ! 2)) (\<lambda>idx.
     load_crayons input_lines is (cnt(idx := cnt idx + 1)))))"

text \<open>The running minima and maxima of the three channels.\<close>

record extents =
  min_r :: int
  max_r :: int
  min_g :: int
  max_g :: int
  min_b :: int
  max_b :: int

definition extend :: "int \<times> int \<times> int \<Rightarrow> extents \<Rightarrow> extents" where
  "extend c ext =
     (case c of (r, g, b) \<Rightarrow>
        \<lparr>min_r = min (min_r ext) r, max_r = max (max_r ext) r,
         min_g = min (min_g ext) g, max_g = max (max_g ext) g,
         min_b = min (min_b ext) b, max_b = max (max_b ext) b\<rparr>)"

text \<open>The loop over the \<open>k\<close> claimed crayons of the output lines \<open>1 .. k\<close>:
  \<open>Inr (Inl ret)\<close> is the checker's early return, \<open>Inl e\<close> an exception.\<close>

fun check_crayons ::
  "string list \<Rightarrow> int list \<Rightarrow> counts \<Rightarrow> extents \<Rightarrow>
     pyexn + (bool \<times> string + counts \<times> extents)" where
  "check_crayons actual_lines [] cnt ext = Inr (Inr (cnt, ext))"
| "check_crayons actual_lines (i # is) cnt ext =
     then_do (py_nth actual_lines i) (\<lambda>line.
     let parts = split_ws (strip line) in
     if length parts \<noteq> 3 then
       Inr (Inl (False, ''Invalid crayon format on line '' @ str_int (i + 1)))
     else
       then_do (int_of_str (parts ! 0)) (\<lambda>r.
       then_do (int_of_str (parts ! 1)) (\<lambda>g.
       then_do (int_of_str (parts ! 2)) (\<lambda>b.
       if \<not> (0 \<le> r \<and> r < 256 \<and> 0 \<le> g \<and> g < 256 \<and> 0 \<le> b \<and> b < 256) then
         Inr (Inl (False, ''Crayon ('' @ str_int r @ '', '' @ str_int g @ '', '' @ str_int b @
                          '') out of range''))
       else if cnt (nat r, nat g, nat b) \<le> 0 then
         Inr (Inl (False, ''Crayon ('' @ str_int r @ '', '' @ str_int g @ '', '' @ str_int b @
                          '') not available (not in input or already used)''))
       else
         check_crayons actual_lines is
           (cnt((nat r, nat g, nat b) := cnt (nat r, nat g, nat b) - 1))
           (extend (r, g, b) ext)))))"

text \<open>The statements that parse the input: \<open>n\<close>, \<open>k\<close> and the counting array.\<close>

definition pastele_input :: "string list \<Rightarrow> pyexn + int \<times> int \<times> counts" where
  "pastele_input input_lines =
     then_do (py_nth input_lines 0) (\<lambda>line0.
     then_do (unpack_ints 2 (split_ws line0)) (\<lambda>nk.
     let n = nk ! 0; k = nk ! 1 in
     then_do (load_crayons input_lines [1..n] (\<lambda>idx. 0)) (\<lambda>cnt.
     Inr (n, k, cnt))))"

text \<open>The statements from \<^verbatim>\<open>if len(actual_lines) < 1\<close> to the end.\<close>

definition pastele_verdict ::
  "int \<Rightarrow> counts \<Rightarrow> int \<Rightarrow> string list \<Rightarrow> pyexn + bool \<times> string" where
  "pastele_verdict k cnt expected_colorfulness actual_lines =
     (if length actual_lines < 1 then Inr (False, ''No output'')
      else
        then_do (py_nth actual_lines 0) (\<lambda>aline0.
        case py_int (strip aline0) of
          None \<Rightarrow> Inr (False, ''Invalid colorfulness: '' @ aline0)
        | Some actual_colorfulness \<Rightarrow>
            if actual_colorfulness \<noteq> expected_colorfulness then
              Inr (False, ''Colorfulness mismatch: expected '' @ str_int expected_colorfulness @
                          '', got '' @ str_int actual_colorfulness)
            else if int (length actual_lines) < k + 1 then
              Inr (False, ''Expected '' @ str_int k @ '' crayons, got '' @
                          str_int (int (length actual_lines) - 1))
            else
              then_do (check_crayons actual_lines [1..k] cnt
                         \<lparr>min_r = 256, max_r = - 1, min_g = 256, max_g = - 1,
                          min_b = 256, max_b = - 1\<rparr>) (\<lambda>looped.
              case looped of
                Inl ret \<Rightarrow> Inr ret
              | Inr (cnt', ext) \<Rightarrow>
                  (let computed_colorfulness =
                         max (max_r ext - min_r ext)
                           (max (max_g ext - min_g ext) (max_b ext - min_b ext))
                   in if computed_colorfulness \<noteq> actual_colorfulness then
                        Inr (False, ''Computed colorfulness is '' @
                                    str_int computed_colorfulness @ '', but claimed '' @
                                    str_int actual_colorfulness)
                      else Inr (True, ''OK'')))))"

definition checker_pastele :: "string \<Rightarrow> string \<Rightarrow> string \<Rightarrow> pyval \<Rightarrow> bool \<times> string" where
  "checker_pastele pid input_data expected actual =
     catch_all
       (let input_lines = split_on LF (strip input_data);
            expected_lines = split_on LF (strip expected)
        in
        then_do (strip_val actual) (\<lambda>actual_stripped.
        let actual_lines = split_on LF actual_stripped in
        then_do (pastele_input input_lines) (\<lambda>(n, k, cnt).
        then_do (py_nth expected_lines 0) (\<lambda>eline0.
        then_do (int_of_str (strip eline0)) (\<lambda>expected_colorfulness.
        pastele_verdict k cnt expected_colorfulness actual_lines)))))"

subsection \<open>Facts about \<^verbatim>\<open>checker_pastele\<close>\<close>

lemma then_do_Inr [simp]: "then_do (Inr v) rest = rest v"
  by (simp add: then_do_def)

lemma then_do_Inl [simp]: "then_do (Inl e) rest = Inl e"
  by (simp add: then_do_def)

text \<open>The crayons of the input lines \<open>1 .. n\<close>, as the index triples at which the
  loading loop counts them.\<close>

fun read_crayons :: "string list \<Rightarrow> int list \<Rightarrow> pyexn + (nat \<times> nat \<times> nat) list" where
  "read_crayons input_lines [] = Inr []"
| "read_crayons input_lines (i # is) =
     then_do (py_nth input_lines i) (\<lambda>line.
     then_do (unpack_ints 3 (split_ws line)) (\<lambda>rgb.
     then_do (index3 (rgb ! 0) (rgb ! 1) (rgb ! 2)) (\<lambda>idx.
     then_do (read_crayons input_lines is) (\<lambda>rest.
     Inr (idx # rest)))))"

lemma load_crayons_read:
  "load_crayons input_lines is cnt =
     then_do (read_crayons input_lines is) (\<lambda>cs. Inr (\<lambda>t. cnt t + int (count_list cs t)))"
proof (induction "is" arbitrary: cnt)
  case Nil
  then show ?case by simp
next
  case (Cons i "is")
  show ?case
  proof (cases "py_nth input_lines i")
    case (Inl e)
    then show ?thesis by simp
  next
    case line: (Inr line)
    show ?thesis
    proof (cases "unpack_ints 3 (split_ws line)")
      case (Inl e)
      with line show ?thesis by simp
    next
      case rgb: (Inr rgb)
      show ?thesis
      proof (cases "index3 (rgb ! 0) (rgb ! 1) (rgb ! 2)")
        case (Inl e)
        with line rgb show ?thesis by simp
      next
        case idx: (Inr idx)
        show ?thesis
        proof (cases "read_crayons input_lines is")
          case (Inl e)
          with line rgb idx show ?thesis by (simp add: Cons.IH)
        next
          case (Inr rest)
          have "(\<lambda>t. (cnt(idx := cnt idx + 1)) t + int (count_list rest t)) =
                (\<lambda>t. cnt t + int (count_list (idx # rest) t))"
            by (rule ext) simp
          with Inr line rgb idx show ?thesis by (simp add: Cons.IH)
        qed
      qed
    qed
  qed
qed

text \<open>The crayon that line \<open>i\<close> of the output claims, and the crayons of a list of lines.\<close>

definition claimed_crayon :: "string list \<Rightarrow> int \<Rightarrow> (int \<times> int \<times> int) option" where
  "claimed_crayon actual_lines i =
     (case py_nth actual_lines i of
        Inl e \<Rightarrow> None
      | Inr line \<Rightarrow>
          (let parts = split_ws (strip line) in
           if length parts \<noteq> 3 then None
           else (case (py_int (parts ! 0), py_int (parts ! 1), py_int (parts ! 2)) of
                   (Some r, Some g, Some b) \<Rightarrow> Some (r, g, b)
                 | _ \<Rightarrow> None)))"

fun claimed_crayons :: "string list \<Rightarrow> int list \<Rightarrow> (int \<times> int \<times> int) list option" where
  "claimed_crayons actual_lines [] = Some []"
| "claimed_crayons actual_lines (i # is) =
     (case claimed_crayon actual_lines i of
        None \<Rightarrow> None
      | Some c \<Rightarrow> map_option ((#) c) (claimed_crayons actual_lines is))"

definition in_range :: "int \<times> int \<times> int \<Rightarrow> bool" where
  "in_range c = (case c of (r, g, b) \<Rightarrow> 0 \<le> r \<and> r < 256 \<and> 0 \<le> g \<and> g < 256 \<and> 0 \<le> b \<and> b < 256)"

definition index_of :: "int \<times> int \<times> int \<Rightarrow> nat \<times> nat \<times> nat" where
  "index_of c = (case c of (r, g, b) \<Rightarrow> (nat r, nat g, nat b))"

lemma check_crayons_step:
  "check_crayons actual_lines (i # is) cnt ext = Inr (Inr res) \<longleftrightarrow>
     (\<exists>c. claimed_crayon actual_lines i = Some c \<and> in_range c \<and> 0 < cnt (index_of c) \<and>
          check_crayons actual_lines is (cnt(index_of c := cnt (index_of c) - 1)) (extend c ext)
            = Inr (Inr res))"
proof (cases "py_nth actual_lines i")
  case (Inl e)
  then show ?thesis by (simp add: claimed_crayon_def)
next
  case line: (Inr line)
  show ?thesis
  proof (cases "length (split_ws (strip line)) \<noteq> 3")
    case True
    with line show ?thesis by (simp add: claimed_crayon_def)
  next
    case False
    let ?parts = "split_ws (strip line)"
    show ?thesis
    proof (cases "py_int (?parts ! 0)")
      case None
      with line False show ?thesis by (simp add: claimed_crayon_def int_of_str_def)
    next
      case r: (Some r)
      show ?thesis
      proof (cases "py_int (?parts ! 1)")
        case None
        with line False r show ?thesis by (simp add: claimed_crayon_def int_of_str_def)
      next
        case g: (Some g)
        show ?thesis
        proof (cases "py_int (?parts ! 2)")
          case None
          with line False r g show ?thesis by (simp add: claimed_crayon_def int_of_str_def)
        next
          case b: (Some b)
          with line False r g show ?thesis
            by (auto simp: claimed_crayon_def int_of_str_def in_range_def index_of_def not_le)
        qed
      qed
    qed
  qed
qed

text \<open>The loop runs through exactly when every line claims a crayon, every crayon is in
  range, and no crayon is claimed more often than the array counts it; it then has
  decremented the array once for each claimed crayon.\<close>

lemma check_crayons_Inr_iff:
  "check_crayons actual_lines is cnt ext = Inr (Inr (cnt', ext')) \<longleftrightarrow>
     (\<exists>cs. claimed_crayons actual_lines is = Some cs \<and> (\<forall>c \<in> set cs. in_range c) \<and>
           (\<forall>t \<in> set (map index_of cs). int (count_list (map index_of cs) t) \<le> cnt t) \<and>
           cnt' = (\<lambda>t. cnt t - int (count_list (map index_of cs) t)) \<and>
           ext' = fold extend cs ext)"
proof (induction "is" arbitrary: cnt ext)
  case Nil
  then show ?case by auto
next
  case (Cons i "is")
  show ?case (is "?lhs \<longleftrightarrow> ?rhs")
  proof
    assume ?lhs
    then obtain c where c: "claimed_crayon actual_lines i = Some c" "in_range c"
        "0 < cnt (index_of c)" and
      rest: "check_crayons actual_lines is (cnt(index_of c := cnt (index_of c) - 1)) (extend c ext)
               = Inr (Inr (cnt', ext'))"
      by (auto simp: check_crayons_step simp del: check_crayons.simps)
    from rest obtain cs where cs: "claimed_crayons actual_lines is = Some cs"
        "\<forall>c \<in> set cs. in_range c"
        "\<forall>t \<in> set (map index_of cs).
           int (count_list (map index_of cs) t) \<le> (cnt(index_of c := cnt (index_of c) - 1)) t"
        "cnt' = (\<lambda>t. (cnt(index_of c := cnt (index_of c) - 1)) t - int (count_list (map index_of cs) t))"
        "ext' = fold extend cs (extend c ext)"
      unfolding Cons.IH by blast
    have "claimed_crayons actual_lines (i # is) = Some (c # cs)"
      using c cs by simp
    moreover have "\<forall>c' \<in> set (c # cs). in_range c'"
      using c cs by simp
    moreover have "\<forall>t \<in> set (map index_of (c # cs)).
        int (count_list (map index_of (c # cs)) t) \<le> cnt t"
    proof
      fix t assume t: "t \<in> set (map index_of (c # cs))"
      show "int (count_list (map index_of (c # cs)) t) \<le> cnt t"
      proof (cases "t \<in> set (map index_of cs)")
        case True
        with cs(3) have "int (count_list (map index_of cs) t) \<le>
            (cnt(index_of c := cnt (index_of c) - 1)) t" by blast
        then show ?thesis by (simp split: if_splits)
      next
        case False
        then have "count_list (map index_of cs) t = 0" by (simp add: count_list_0_iff)
        moreover from False t have "t = index_of c" by simp
        ultimately show ?thesis using c(3) by simp
      qed
    qed
    moreover have "cnt' = (\<lambda>t. cnt t - int (count_list (map index_of (c # cs)) t))"
      unfolding cs(4) by (rule ext) simp
    moreover have "ext' = fold extend (c # cs) ext"
      using cs by simp
    ultimately show ?rhs by blast
  next
    assume ?rhs
    then obtain cs0 where cs0: "claimed_crayons actual_lines (i # is) = Some cs0"
        "\<forall>c \<in> set cs0. in_range c"
        "\<forall>t \<in> set (map index_of cs0). int (count_list (map index_of cs0) t) \<le> cnt t"
        "cnt' = (\<lambda>t. cnt t - int (count_list (map index_of cs0) t))"
        "ext' = fold extend cs0 ext"
      by blast
    from cs0(1) obtain c cs where c: "claimed_crayon actual_lines i = Some c"
        and cs: "claimed_crayons actual_lines is = Some cs" and eq: "cs0 = c # cs"
      by (auto split: option.splits)
    have "index_of c \<in> set (map index_of (c # cs))" by simp
    then have "int (count_list (map index_of (c # cs)) (index_of c)) \<le> cnt (index_of c)"
      using cs0(3) [unfolded eq] by blast
    then have pos: "0 < cnt (index_of c)" by simp
    have "\<forall>t \<in> set (map index_of cs).
           int (count_list (map index_of cs) t) \<le> (cnt(index_of c := cnt (index_of c) - 1)) t"
    proof
      fix t assume "t \<in> set (map index_of cs)"
      then have "t \<in> set (map index_of (c # cs))" by simp
      then have "int (count_list (map index_of (c # cs)) t) \<le> cnt t"
        using cs0(3) [unfolded eq] by blast
      then show "int (count_list (map index_of cs) t) \<le> (cnt(index_of c := cnt (index_of c) - 1)) t"
        by (simp split: if_splits)
    qed
    moreover have "cnt' = (\<lambda>t. (cnt(index_of c := cnt (index_of c) - 1)) t -
                        int (count_list (map index_of cs) t))"
      unfolding cs0(4) eq by (rule ext) simp
    moreover have "ext' = fold extend cs (extend c ext)"
      using cs0(5) eq by simp
    ultimately have "check_crayons actual_lines is (cnt(index_of c := cnt (index_of c) - 1))
        (extend c ext) = Inr (Inr (cnt', ext'))"
      unfolding Cons.IH using cs cs0(2) eq by auto
    with c pos cs0(2) eq show ?lhs
      by (auto simp: check_crayons_step simp del: check_crayons.simps)
  qed
qed
text \<open>The three channels of a crayon, and the colorfulness of a non-empty list of crayons:
  the largest of the three differences between a channel's maximum and minimum.\<close>

definition red :: "int \<times> int \<times> int \<Rightarrow> int" where
  "red c = (case c of (r, g, b) \<Rightarrow> r)"

definition green :: "int \<times> int \<times> int \<Rightarrow> int" where
  "green c = (case c of (r, g, b) \<Rightarrow> g)"

definition blue :: "int \<times> int \<times> int \<Rightarrow> int" where
  "blue c = (case c of (r, g, b) \<Rightarrow> b)"

definition colorfulness :: "(int \<times> int \<times> int) list \<Rightarrow> int" where
  "colorfulness cs =
     max (Max (red ` set cs) - Min (red ` set cs))
       (max (Max (green ` set cs) - Min (green ` set cs))
            (Max (blue ` set cs) - Min (blue ` set cs)))"

lemma Min_insert_min:
  fixes a :: int
  assumes "finite S"
  shows "Min (insert (min a r) S) = Min (insert a (insert r S))"
  using assms by (cases "S = {}") (simp_all add: min.assoc)

lemma Max_insert_max:
  fixes a :: int
  assumes "finite S"
  shows "Max (insert (max a r) S) = Max (insert a (insert r S))"
  using assms by (cases "S = {}") (simp_all add: max.assoc)

lemma extend_fields:
  "min_r (extend c ext) = min (min_r ext) (red c)"
  "max_r (extend c ext) = max (max_r ext) (red c)"
  "min_g (extend c ext) = min (min_g ext) (green c)"
  "max_g (extend c ext) = max (max_g ext) (green c)"
  "min_b (extend c ext) = min (min_b ext) (blue c)"
  "max_b (extend c ext) = max (max_b ext) (blue c)"
  by (simp_all add: extend_def red_def green_def blue_def split: prod.splits)

lemma fold_extend_fields:
  "min_r (fold extend cs ext) = Min (insert (min_r ext) (red ` set cs))"
  "max_r (fold extend cs ext) = Max (insert (max_r ext) (red ` set cs))"
  "min_g (fold extend cs ext) = Min (insert (min_g ext) (green ` set cs))"
  "max_g (fold extend cs ext) = Max (insert (max_g ext) (green ` set cs))"
  "min_b (fold extend cs ext) = Min (insert (min_b ext) (blue ` set cs))"
  "max_b (fold extend cs ext) = Max (insert (max_b ext) (blue ` set cs))"
  by (induction cs arbitrary: ext)
     (simp_all add: extend_fields Min_insert_min Max_insert_max)

lemma Min_insert_above:
  fixes S :: "int set"
  assumes "finite S" and "S \<noteq> {}" and "\<forall>x \<in> S. x \<le> a"
  shows "Min (insert a S) = Min S"
proof -
  have "Min S \<in> S" using assms by simp
  with assms(3) have le: "Min S \<le> a" by blast
  have "Min (insert a S) = min a (Min S)" using assms by simp
  also have "\<dots> = Min S" using le by (rule min_absorb2)
  finally show ?thesis .
qed

lemma Max_insert_below:
  fixes S :: "int set"
  assumes "finite S" and "S \<noteq> {}" and "\<forall>x \<in> S. a \<le> x"
  shows "Max (insert a S) = Max S"
proof -
  have "Max S \<in> S" using assms by simp
  with assms(3) have le: "a \<le> Max S" by blast
  have "Max (insert a S) = max a (Max S)" using assms by simp
  also have "\<dots> = Max S" using le by (rule max_absorb2)
  finally show ?thesis .
qed

lemma Min_insert_image:
  fixes f :: "'a \<Rightarrow> int"
  assumes "cs \<noteq> []" and "\<forall>c \<in> set cs. f c \<le> a"
  shows "Min (insert a (f ` set cs)) = Min (f ` set cs)"
  using assms by (intro Min_insert_above) auto

lemma Max_insert_image:
  fixes f :: "'a \<Rightarrow> int"
  assumes "cs \<noteq> []" and "\<forall>c \<in> set cs. a \<le> f c"
  shows "Max (insert a (f ` set cs)) = Max (f ` set cs)"
  using assms by (intro Max_insert_below) auto

definition initial_extents :: extents where
  "initial_extents =
     \<lparr>min_r = 256, max_r = - 1, min_g = 256, max_g = - 1, min_b = 256, max_b = - 1\<rparr>"

text \<open>What the checker recomputes: on crayons in range it is their colorfulness, and
  \<open>- 1 - 256\<close> when there is no crayon.\<close>

lemma computed_colorfulness:
  assumes "\<forall>c \<in> set cs. in_range c"
  shows "(let ext = fold extend cs initial_extents
          in max (max_r ext - min_r ext) (max (max_g ext - min_g ext) (max_b ext - min_b ext))) =
         (if cs = [] then - 257 else colorfulness cs)"
proof (cases "cs = []")
  case True
  then show ?thesis by (simp add: initial_extents_def)
next
  case False
  have upper: "\<forall>c \<in> set cs. red c \<le> 256" "\<forall>c \<in> set cs. green c \<le> 256"
      "\<forall>c \<in> set cs. blue c \<le> 256"
    using assms by (auto simp: in_range_def red_def green_def blue_def)
  have lower: "\<forall>c \<in> set cs. - 1 \<le> red c" "\<forall>c \<in> set cs. - 1 \<le> green c"
      "\<forall>c \<in> set cs. - 1 \<le> blue c"
    using assms by (auto simp: in_range_def red_def green_def blue_def)
  note Min_insert_image [OF False upper(1)] Max_insert_image [OF False lower(1)]
       Min_insert_image [OF False upper(2)] Max_insert_image [OF False lower(2)]
       Min_insert_image [OF False upper(3)] Max_insert_image [OF False lower(3)]
  with False show ?thesis
    by (simp add: Let_def fold_extend_fields initial_extents_def colorfulness_def
          del: Min_insert Max_insert)
qed

text \<open>The input as \<open>n\<close>, \<open>k\<close> and its list of crayons; the output as the claimed
  colorfulness and the \<open>k\<close> claimed crayons.\<close>

definition pastele_crayons :: "string list \<Rightarrow> pyexn + int \<times> int \<times> (nat \<times> nat \<times> nat) list" where
  "pastele_crayons input_lines =
     then_do (py_nth input_lines 0) (\<lambda>line0.
     then_do (unpack_ints 2 (split_ws line0)) (\<lambda>nk.
     then_do (read_crayons input_lines [1..nk ! 0]) (\<lambda>crayons.
     Inr (nk ! 0, nk ! 1, crayons))))"

definition pastele_output :: "int \<Rightarrow> string list \<Rightarrow> (int \<times> (int \<times> int \<times> int) list) option" where
  "pastele_output k actual_lines =
     (case py_int (strip (hd actual_lines)) of
        None \<Rightarrow> None
      | Some claimed \<Rightarrow>
          if int (length actual_lines) < k + 1 then None
          else map_option (Pair claimed) (claimed_crayons actual_lines [1..k]))"

lemma pastele_input_Inr_iff:
  "pastele_input input_lines = Inr (n, k, cnt) \<longleftrightarrow>
     (\<exists>crayons. pastele_crayons input_lines = Inr (n, k, crayons) \<and>
                cnt = (\<lambda>t. int (count_list crayons t)))"
  by (auto simp: pastele_input_def pastele_crayons_def load_crayons_read then_do_Inr_iff Let_def)

lemma claimed_crayons_length:
  "claimed_crayons actual_lines is = Some cs \<Longrightarrow> length cs = length is"
  by (induction "is" arbitrary: cs) (auto split: option.splits)

lemma check_crayons_rejects:
  "check_crayons actual_lines is cnt ext = Inr (Inl ret) \<Longrightarrow> \<not> fst ret"
proof (induction "is" arbitrary: cnt ext)
  case Nil
  then show ?case by simp
next
  case (Cons i "is")
  then show ?case
    by (auto simp: then_do_Inr_iff Let_def split: if_splits)
qed

lemma sub_multiset_counts:
  "(\<forall>t \<in> set xs. int (count_list xs t) \<le> int (count_list ys t)) \<longleftrightarrow> mset xs \<subseteq># mset ys"
proof
  assume le: "\<forall>t \<in> set xs. int (count_list xs t) \<le> int (count_list ys t)"
  show "mset xs \<subseteq># mset ys"
  proof (rule mset_subset_eqI)
    fix t
    show "count (mset xs) t \<le> count (mset ys) t"
    proof (cases "t \<in> set xs")
      case True
      with le show ?thesis by (simp add: count_mset)
    next
      case False
      then show ?thesis by (simp add: count_mset count_list_0_iff)
    qed
  qed
next
  assume "mset xs \<subseteq># mset ys"
  then have "count (mset xs) t \<le> count (mset ys) t" for t
    by (rule mset_subset_eq_count)
  then show "\<forall>t \<in> set xs. int (count_list xs t) \<le> int (count_list ys t)"
    by (simp add: count_mset)
qed

lemma pastele_verdict_accepts_iff:
  assumes "actual_lines \<noteq> []"
  shows "(\<exists>msg. pastele_verdict k (\<lambda>t. int (count_list crayons t)) expected_colorfulness
                  actual_lines = Inr (True, msg)) \<longleftrightarrow>
         (\<exists>claimed chosen.
            pastele_output k actual_lines = Some (claimed, chosen) \<and>
            claimed = expected_colorfulness \<and>
            (\<forall>c \<in> set chosen. in_range c) \<and>
            mset (map index_of chosen) \<subseteq># mset crayons \<and>
            claimed = (if chosen = [] then - 257 else colorfulness chosen))"
proof -
  have len: "\<not> length actual_lines < 1" using assms by (cases actual_lines) simp_all
  let ?cnt = "\<lambda>t. int (count_list crayons t)"
  let ?loop = "check_crayons actual_lines [1..k] ?cnt initial_extents"
  show ?thesis
  proof (cases "py_int (strip (hd actual_lines))")
    case None
    with assms len show ?thesis
      by (simp add: pastele_verdict_def pastele_output_def py_nth_0)
  next
    case (Some claimed)
    show ?thesis
    proof (cases "claimed \<noteq> expected_colorfulness \<or> int (length actual_lines) < k + 1")
      case True
      with Some assms len show ?thesis
        by (auto simp: pastele_verdict_def pastele_output_def py_nth_0)
    next
      case False
      from False have eq: "claimed = expected_colorfulness" by simp
      have verdict: "pastele_verdict k ?cnt expected_colorfulness actual_lines =
          then_do ?loop (\<lambda>looped.
            case looped of
              Inl ret \<Rightarrow> Inr ret
            | Inr (cnt', ext) \<Rightarrow>
                (let computed_colorfulness =
                       max (max_r ext - min_r ext)
                         (max (max_g ext - min_g ext) (max_b ext - min_b ext))
                 in if computed_colorfulness \<noteq> expected_colorfulness then
                      Inr (False, ''Computed colorfulness is '' @
                                  str_int computed_colorfulness @ '', but claimed '' @
                                  str_int expected_colorfulness)
                    else Inr (True, ''OK'')))"
      proof -
        from False have "\<not> int (length actual_lines) < k + 1"
          by simp
        with Some eq assms len show ?thesis
          by (simp add: pastele_verdict_def py_nth_0 initial_extents_def)
      qed
      have outp: "pastele_output k actual_lines =
          map_option (Pair claimed) (claimed_crayons actual_lines [1..k])"
        using Some False by (simp add: pastele_output_def)
      show ?thesis
      proof (cases ?loop)
        case (Inl e)
        then have "\<not> (\<exists>cnt' ext'. ?loop = Inr (Inr (cnt', ext')))" by simp
        then have "\<not> (\<exists>chosen. claimed_crayons actual_lines [1..k] = Some chosen \<and>
            (\<forall>c \<in> set chosen. in_range c) \<and> mset (map index_of chosen) \<subseteq># mset crayons)"
          unfolding check_crayons_Inr_iff sub_multiset_counts by blast
        with Inl verdict outp show ?thesis by auto
      next
        case (Inr looped)
        show ?thesis
        proof (cases looped)
          case (Inl ret)
          with Inr have "\<not> fst ret" by (simp add: check_crayons_rejects)
          then have no: "ret \<noteq> (True, msg)" for msg by auto
          from Inl Inr have "\<not> (\<exists>cnt' ext'. ?loop = Inr (Inr (cnt', ext')))" by simp
          then have "\<not> (\<exists>chosen. claimed_crayons actual_lines [1..k] = Some chosen \<and>
              (\<forall>c \<in> set chosen. in_range c) \<and> mset (map index_of chosen) \<subseteq># mset crayons)"
            unfolding check_crayons_Inr_iff sub_multiset_counts by blast
          with Inl Inr verdict outp no show ?thesis by auto
        next
          case (Inr res)
          obtain cnt' ext' where res: "res = (cnt', ext')" by (cases res)
          with Inr \<open>?loop = Inr looped\<close> have loop: "?loop = Inr (Inr (cnt', ext'))" by simp
          then obtain chosen where chosen: "claimed_crayons actual_lines [1..k] = Some chosen"
              "\<forall>c \<in> set chosen. in_range c" "mset (map index_of chosen) \<subseteq># mset crayons"
              "ext' = fold extend chosen initial_extents"
            unfolding check_crayons_Inr_iff sub_multiset_counts by blast
          have "max (max_r ext' - min_r ext') (max (max_g ext' - min_g ext') (max_b ext' - min_b ext'))
                  = (if chosen = [] then - 257 else colorfulness chosen)"
            using computed_colorfulness [OF chosen(2)] chosen(4) by (simp add: Let_def)
          with loop verdict outp chosen eq show ?thesis
            by (auto simp: Let_def)
        qed
      qed
    qed
  qed
qed

text \<open>
  Claim C6.  \<^verbatim>\<open>checker_pastele\<close> accepts an output exactly when the input, the expected
  output and the output parse and: the claimed colorfulness equals the expected one; each
  of the \<open>k\<close> claimed crayons has its channels in \<open>0 .. 255\<close>; the claimed crayons, with
  their multiplicities, form a sub-multiset of the crayons of the input; and the claimed
  colorfulness equals the one recomputed from the claimed crayons.  So an output that
  claims a crayon the input does not have, or claims one more often than the input has it,
  or whose claimed colorfulness differs from the recomputed one, is rejected.
\<close>

theorem checker_pastele_accepts_iff:
  "fst (checker_pastele pid input_data expected (PyStr actual)) \<longleftrightarrow>
   (\<exists>n k crayons claimed chosen.
      pastele_crayons (split_on LF (strip input_data)) = Inr (n, k, crayons) \<and>
      py_int (strip (hd (split_on LF (strip expected)))) = Some claimed \<and>
      pastele_output k (split_on LF (strip actual)) = Some (claimed, chosen) \<and>
      length chosen = nat k \<and>
      (\<forall>c \<in> set chosen. in_range c) \<and>
      mset (map index_of chosen) \<subseteq># mset crayons \<and>
      claimed = (if chosen = [] then - 257 else colorfulness chosen))"
  (is "?lhs \<longleftrightarrow> ?rhs")
proof
  assume ?lhs
  then obtain msg n k cnt expected_colorfulness where
    inp: "pastele_input (split_on LF (strip input_data)) = Inr (n, k, cnt)" and
    exp: "py_int (strip (hd (split_on LF (strip expected)))) = Some expected_colorfulness" and
    verdict: "pastele_verdict k cnt expected_colorfulness (split_on LF (strip actual)) =
                Inr (True, msg)"
    by (auto simp: checker_pastele_def catch_all_fst Let_def then_do_Inr_iff py_nth_0
          int_of_str_Inr_iff)
  from inp obtain crayons where
    crayons: "pastele_crayons (split_on LF (strip input_data)) = Inr (n, k, crayons)" and
    cnt: "cnt = (\<lambda>t. int (count_list crayons t))"
    unfolding pastele_input_Inr_iff by blast
  from verdict obtain claimed chosen where
    out: "pastele_output k (split_on LF (strip actual)) = Some (claimed, chosen)" and
    rest: "claimed = expected_colorfulness" "\<forall>c \<in> set chosen. in_range c"
      "mset (map index_of chosen) \<subseteq># mset crayons"
      "claimed = (if chosen = [] then - 257 else colorfulness chosen)"
    unfolding cnt
    using pastele_verdict_accepts_iff [of "split_on LF (strip actual)" k crayons expected_colorfulness]
    by auto
  from out have "claimed_crayons (split_on LF (strip actual)) [1..k] = Some chosen"
    by (auto simp: pastele_output_def split: option.splits if_splits)
  then have "length chosen = nat k"
    by (simp add: claimed_crayons_length)
  with crayons exp out rest show ?rhs by blast
next
  assume ?rhs
  then obtain n k crayons claimed chosen where
    crayons: "pastele_crayons (split_on LF (strip input_data)) = Inr (n, k, crayons)" and
    exp: "py_int (strip (hd (split_on LF (strip expected)))) = Some claimed" and
    out: "pastele_output k (split_on LF (strip actual)) = Some (claimed, chosen)" and
    rest: "\<forall>c \<in> set chosen. in_range c" "mset (map index_of chosen) \<subseteq># mset crayons"
      "claimed = (if chosen = [] then - 257 else colorfulness chosen)"
    by blast
  have inp: "pastele_input (split_on LF (strip input_data)) =
               Inr (n, k, \<lambda>t. int (count_list crayons t))"
    using crayons unfolding pastele_input_Inr_iff by blast
  obtain msg where
    "pastele_verdict k (\<lambda>t. int (count_list crayons t)) claimed (split_on LF (strip actual)) =
       Inr (True, msg)"
    using pastele_verdict_accepts_iff [of "split_on LF (strip actual)" k crayons claimed]
      out rest by auto
  with inp exp show ?lhs
    by (simp add: checker_pastele_def catch_all_fst Let_def py_nth_0 int_of_str_def)
qed
text \<open>The example of the specification: four crayons, two to choose, expected
  colorfulness 10.\<close>

definition ex_pastele_input :: string where
  "ex_pastele_input =
     ''4 2'' @ [LF] @ ''0 0 0'' @ [LF] @ ''10 10 10'' @ [LF] @ ''100 100 100'' @ [LF] @
     ''200 200 200'' @ [LF]"

definition ex_pastele_expected :: string where
  "ex_pastele_expected = ''10'' @ [LF]"

definition ex_pastele_actual :: string where
  "ex_pastele_actual = ''10'' @ [LF] @ ''0 0 0'' @ [LF] @ ''10 10 10'' @ [LF]"

lemma ex_pastele_accepted:
  "checker_pastele ''pastele'' ex_pastele_input ex_pastele_expected (PyStr ex_pastele_actual) =
     (True, ''OK'')"
  by code_simp

text \<open>A crayon that the input does not have, and a crayon used twice that the input has
  once, are rejected.\<close>

lemma ex_pastele_absent_rejected:
  "checker_pastele ''pastele'' ex_pastele_input ex_pastele_expected
     (PyStr (''10'' @ [LF] @ ''0 0 0'' @ [LF] @ ''10 10 11'' @ [LF])) =
     (False, ''Crayon (10, 10, 11) not available (not in input or already used)'')"
  by code_simp

lemma ex_pastele_reuse_rejected:
  "checker_pastele ''pastele'' ex_pastele_input (''0'' @ [LF])
     (PyStr (''0'' @ [LF] @ ''0 0 0'' @ [LF] @ ''0 0 0'' @ [LF])) =
     (False, ''Crayon (0, 0, 0) not available (not in input or already used)'')"
  by code_simp

lemma ex_pastele_crayons:
  "pastele_crayons (split_on LF (strip ex_pastele_input)) =
     Inr (4, 2, [(0, 0, 0), (10, 10, 10), (100, 100, 100), (200, 200, 200)])"
  by code_simp

lemma ex_pastele_output:
  "pastele_output 2 (split_on LF (strip ex_pastele_actual)) =
     Some (10, [(0, 0, 0), (10, 10, 10)])"
  by code_simp

theorem checker_pastele_accepts_iff_witness:
  "fst (checker_pastele ''pastele'' ex_pastele_input ex_pastele_expected
     (PyStr ex_pastele_actual)) \<and>
   mset (map index_of [(0, 0, 0), (10, 10, 10)]) \<subseteq>#
     mset [(0, 0, 0), (10, 10, 10), (100, 100, 100), (200, 200, 200)] \<and>
   colorfulness [(0, 0, 0), (10, 10, 10)] = 10"
proof -
  have accepted: "fst (checker_pastele ''pastele'' ex_pastele_input ex_pastele_expected
     (PyStr ex_pastele_actual))"
    by (simp add: ex_pastele_accepted)
  then obtain n k crayons claimed chosen where
    "pastele_crayons (split_on LF (strip ex_pastele_input)) = Inr (n, k, crayons)" and
    "pastele_output k (split_on LF (strip ex_pastele_actual)) = Some (claimed, chosen)" and
    "mset (map index_of chosen) \<subseteq># mset crayons" and
    "claimed = (if chosen = [] then - 257 else colorfulness chosen)"
    using checker_pastele_accepts_iff [of "''pastele''" ex_pastele_input ex_pastele_expected
        ex_pastele_actual]
    by blast
  then have "mset (map index_of [(0, 0, 0), (10, 10, 10)]) \<subseteq>#
     mset [(0, 0, 0), (10, 10, 10), (100, 100, 100), (200, 200, 200)] \<and>
     colorfulness [(0, 0, 0), (10, 10, 10)] = 10"
    by (auto simp: ex_pastele_crayons ex_pastele_output)
  with accepted show ?thesis by simp
qed

subsection \<open>\<^verbatim>\<open>checker_rez\<close>\<close>

text \<open>A cut is the tuple \<open>(x1, y1, x2, y2)\<close> of its endpoints' coordinates.\<close>

type_synonym cut = "int \<times> int \<times> int \<times> int"

text \<open>One round of the loop that reads the cuts: \<open>Inl\<close> is the checker's early return.
  A \<open>ValueError\<close> or \<open>IndexError\<close> in the round is caught there.\<close>

definition read_cut :: "string list \<Rightarrow> int \<Rightarrow> bool \<times> string + cut" where
  "read_cut actual_lines i =
     (case py_nth actual_lines i of
        Inl e \<Rightarrow> Inl (False, ''Invalid cut on line '' @ str_int (i + 1))
      | Inr line \<Rightarrow>
          (let parts = split_ws (strip line) in
           if length parts \<noteq> 4 then
             Inl (False, ''Invalid cut format on line '' @ str_int (i + 1))
           else
             (case unpack_ints 4 parts of
                Inl e \<Rightarrow> Inl (False, ''Invalid cut on line '' @ str_int (i + 1))
              | Inr xs \<Rightarrow> Inr (xs ! 0, xs ! 1, xs ! 2, xs ! 3))))"

fun read_cuts :: "string list \<Rightarrow> int list \<Rightarrow> bool \<times> string + cut list" where
  "read_cuts actual_lines [] = Inr []"
| "read_cuts actual_lines (i # is) =
     (case read_cut actual_lines i of
        Inl ret \<Rightarrow> Inl ret
      | Inr c \<Rightarrow>
          (case read_cuts actual_lines is of
             Inl ret \<Rightarrow> Inl ret
           | Inr cuts \<Rightarrow> Inr (c # cuts)))"

definition on_boundary :: "int \<Rightarrow> int \<Rightarrow> bool" where
  "on_boundary x y = (max \<bar>x\<bar> \<bar>y\<bar> = 5000)"

text \<open>The loop over \<open>enumerate(cuts)\<close> that checks the endpoints: \<open>Some\<close> is the early
  return.\<close>

fun validate_cuts :: "nat \<Rightarrow> cut list \<Rightarrow> (bool \<times> string) option" where
  "validate_cuts i [] = None"
| "validate_cuts i ((x1, y1, x2, y2) # rest) =
     (if \<not> on_boundary x1 y1 then
        Some (False, ''Cut '' @ str_nat (i + 1) @ '' endpoint ('' @ str_int x1 @ '', '' @
                     str_int y1 @ '') not on boundary'')
      else if \<not> on_boundary x2 y2 then
        Some (False, ''Cut '' @ str_nat (i + 1) @ '' endpoint ('' @ str_int x2 @ '', '' @
                     str_int y2 @ '') not on boundary'')
      else validate_cuts (i + 1) rest)"

text \<open>
  \<^verbatim>\<open>line_intersection\<close>.  The determinant is an integer.  The division and what follows
  it are floating-point operations in the code; here they are exact operations on
  rational numbers, so rounding is not modelled.
\<close>

definition line_intersection :: "cut \<Rightarrow> cut \<Rightarrow> (rat \<times> rat) option" where
  "line_intersection cut1 cut2 =
     (case cut1 of (x1, y1, x2, y2) \<Rightarrow>
      case cut2 of (x3, y3, x4, y4) \<Rightarrow>
        (let denom = (x1 - x2) * (y3 - y4) - (y1 - y2) * (x3 - x4) in
         if \<bar>of_int denom :: rat\<bar> < 1 / 10 ^ 10 then None
         else
           (let t = of_int ((x1 - x3) * (y3 - y4) - (y1 - y3) * (x3 - x4)) / of_int denom;
                px = of_int x1 + t * of_int (x2 - x1);
                py = of_int y1 + t * of_int (y2 - y1)
            in if - 5000 < px \<and> px < 5000 \<and> - 5000 < py \<and> py < 5000 then Some (px, py)
               else None)))"

text \<open>The double loop over the pairs \<open>i < j\<close> of cuts that counts the intersections.\<close>

fun count_intersections :: "cut list \<Rightarrow> nat" where
  "count_intersections [] = 0"
| "count_intersections (c # rest) =
     length (filter (\<lambda>d. line_intersection c d \<noteq> None) rest) + count_intersections rest"

text \<open>The statements from \<^verbatim>\<open>if len(actual_lines) < 1\<close> to the end.\<close>

definition rez_verdict :: "int \<Rightarrow> int \<Rightarrow> string list \<Rightarrow> pyexn + bool \<times> string" where
  "rez_verdict k expected_n actual_lines =
     (if length actual_lines < 1 then Inr (False, ''No output'')
      else
        then_do (py_nth actual_lines 0) (\<lambda>aline0.
        case py_int (strip aline0) of
          None \<Rightarrow> Inr (False, ''Invalid N: '' @ aline0)
        | Some actual_n \<Rightarrow>
            if actual_n \<noteq> expected_n then
              Inr (False, ''N mismatch: expected '' @ str_int expected_n @ '', got '' @
                          str_int actual_n)
            else if int (length actual_lines) < actual_n + 1 then
              Inr (False, ''Expected '' @ str_int actual_n @ '' cuts, got '' @
                          str_int (int (length actual_lines) - 1))
            else
              (case read_cuts actual_lines [1..actual_n] of
                 Inl ret \<Rightarrow> Inr ret
               | Inr cuts \<Rightarrow>
                   (case validate_cuts 0 cuts of
                      Some ret \<Rightarrow> Inr ret
                    | None \<Rightarrow>
                        (let intersections = int (count_intersections cuts);
                             pieces = 1 + actual_n + intersections
                         in if pieces < k then
                              Inr (False, ''Cuts create only '' @ str_int pieces @
                                          '' pieces, need at least '' @ str_int k)
                            else Inr (True, ''OK''))))))"

definition checker_rez :: "string \<Rightarrow> string \<Rightarrow> string \<Rightarrow> pyval \<Rightarrow> bool \<times> string" where
  "checker_rez pid input_data expected actual =
     catch_all
       (then_do (int_of_str (strip input_data)) (\<lambda>k.
        let expected_lines = split_on LF (strip expected) in
        then_do (strip_val actual) (\<lambda>actual_stripped.
        let actual_lines = split_on LF actual_stripped in
        then_do (py_nth expected_lines 0) (\<lambda>eline0.
        then_do (int_of_str (strip eline0)) (\<lambda>expected_n.
        rez_verdict k expected_n actual_lines)))))"

subsection \<open>Facts about \<^verbatim>\<open>checker_rez\<close>\<close>

text \<open>A point is on the boundary of the square when one coordinate is \<open>5000\<close> or
  \<open>- 5000\<close> and the other lies between them.\<close>

lemma on_boundary_iff:
  "on_boundary x y \<longleftrightarrow> (\<bar>x\<bar> = 5000 \<and> \<bar>y\<bar> \<le> 5000) \<or> (\<bar>y\<bar> = 5000 \<and> \<bar>x\<bar> \<le> 5000)"
  by (auto simp: on_boundary_def max_def)

text \<open>The determinant is an integer, so the test against \<open>1e-10\<close> excludes exactly the
  pairs whose determinant is zero: parallel lines and cuts with equal endpoints.\<close>

lemma near_zero_iff:
  fixes d :: int
  shows "\<bar>of_int d :: rat\<bar> < 1 / 10 ^ 10 \<longleftrightarrow> d = 0"
proof
  assume small: "\<bar>of_int d :: rat\<bar> < 1 / 10 ^ 10"
  show "d = 0"
  proof (rule ccontr)
    assume "d \<noteq> 0"
    then have "1 \<le> \<bar>d\<bar>" by simp
    then have "(1 :: rat) \<le> of_int \<bar>d\<bar>" by (simp only: of_int_1_le_iff)
    with small show False by simp
  qed
next
  assume "d = 0"
  then show "\<bar>of_int d :: rat\<bar> < 1 / 10 ^ 10" by simp
qed

text \<open>The point \<^verbatim>\<open>line_intersection\<close> returns lies on the lines through both cuts and
  strictly inside the square.\<close>

lemma line_intersection_Some_iff:
  "line_intersection (x1, y1, x2, y2) (x3, y3, x4, y4) = Some (px, py) \<longleftrightarrow>
     (x1 - x2) * (y3 - y4) - (y1 - y2) * (x3 - x4) \<noteq> 0 \<and>
     px = of_int x1 +
          of_int ((x1 - x3) * (y3 - y4) - (y1 - y3) * (x3 - x4)) /
          of_int ((x1 - x2) * (y3 - y4) - (y1 - y2) * (x3 - x4)) * of_int (x2 - x1) \<and>
     py = of_int y1 +
          of_int ((x1 - x3) * (y3 - y4) - (y1 - y3) * (x3 - x4)) /
          of_int ((x1 - x2) * (y3 - y4) - (y1 - y2) * (x3 - x4)) * of_int (y2 - y1) \<and>
     - 5000 < px \<and> px < 5000 \<and> - 5000 < py \<and> py < 5000"
  unfolding line_intersection_def near_zero_iff Let_def prod.case
  by (cases "(x1 - x2) * (y3 - y4) - (y1 - y2) * (x3 - x4) = 0") auto

lemma line_intersection_point:
  assumes "line_intersection (x1, y1, x2, y2) (x3, y3, x4, y4) = Some (px, py)"
  shows "(px - of_int x1) * of_int (y2 - y1) = (py - of_int y1) * of_int (x2 - x1)"
    and "(px - of_int x3) * of_int (y4 - y3) = (py - of_int y3) * of_int (x4 - x3)"
    and "- 5000 < px \<and> px < 5000 \<and> - 5000 < py \<and> py < 5000"
proof -
  define a1 a2 a3 a4 b1 b2 b3 b4 :: rat where
    "a1 = of_int x1" and "a2 = of_int x2" and "a3 = of_int x3" and "a4 = of_int x4" and
    "b1 = of_int y1" and "b2 = of_int y2" and "b3 = of_int y3" and "b4 = of_int y4"
  note coords = a1_def a2_def a3_def a4_def b1_def b2_def b3_def b4_def
  define D where "D = (a1 - a2) * (b3 - b4) - (b1 - b2) * (a3 - a4)"
  define N where "N = (a1 - a3) * (b3 - b4) - (b1 - b3) * (a3 - a4)"
  have D: "of_int ((x1 - x2) * (y3 - y4) - (y1 - y2) * (x3 - x4)) = D"
    by (simp add: D_def coords)
  have N: "of_int ((x1 - x3) * (y3 - y4) - (y1 - y3) * (x3 - x4)) = N"
    by (simp add: N_def coords)
  from assms have "(x1 - x2) * (y3 - y4) - (y1 - y2) * (x3 - x4) \<noteq> 0"
    by (simp add: line_intersection_Some_iff)
  then have "(of_int ((x1 - x2) * (y3 - y4) - (y1 - y2) * (x3 - x4)) :: rat) \<noteq> 0"
    by (simp only: of_int_eq_0_iff not_False_eq_True)
  then have nz: "D \<noteq> 0" unfolding D .
  from assms have px: "px = a1 + N / D * (a2 - a1)" and py: "py = b1 + N / D * (b2 - b1)"
    unfolding line_intersection_Some_iff D N by (simp_all add: coords)
  show "(px - of_int x1) * of_int (y2 - y1) = (py - of_int y1) * of_int (x2 - x1)"
    unfolding px py by (simp add: coords)
  have key: "((a1 - a3) * D + N * (a2 - a1)) * (b4 - b3) =
             ((b1 - b3) * D + N * (b2 - b1)) * (a4 - a3)"
    unfolding D_def N_def by algebra
  define t where "t = N / D"
  have tD: "t * D = N" using nz by (simp add: t_def)
  have "(a1 + t * (a2 - a1) - a3) * D = (a1 - a3) * D + t * D * (a2 - a1)"
       "(b1 + t * (b2 - b1) - b3) * D = (b1 - b3) * D + t * D * (b2 - b1)"
    by algebra+
  then have "(px - a3) * D = (a1 - a3) * D + N * (a2 - a1)"
       "(py - b3) * D = (b1 - b3) * D + N * (b2 - b1)"
    unfolding px py tD t_def [symmetric] by simp_all
  with key have "(px - a3) * D * (b4 - b3) = (py - b3) * D * (a4 - a3)"
    by simp
  then have "((px - a3) * (b4 - b3)) * D = ((py - b3) * (a4 - a3)) * D"
    by (simp only: mult.assoc mult.commute mult.left_commute)
  with nz have "(px - a3) * (b4 - b3) = (py - b3) * (a4 - a3)"
    by simp
  then show "(px - of_int x3) * of_int (y4 - y3) = (py - of_int y3) * of_int (x4 - x3)"
    by (simp add: coords)
  from assms show "- 5000 < px \<and> px < 5000 \<and> - 5000 < py \<and> py < 5000"
    by (simp add: line_intersection_Some_iff)
qed

lemma read_cut_rejects: "read_cut actual_lines i = Inl ret \<Longrightarrow> \<not> fst ret"
  by (auto simp: read_cut_def Let_def split: sum.splits if_splits)

lemma read_cuts_rejects: "read_cuts actual_lines is = Inl ret \<Longrightarrow> \<not> fst ret"
  by (induction "is") (auto split: sum.splits dest: read_cut_rejects)

lemma read_cuts_length: "read_cuts actual_lines is = Inr cuts \<Longrightarrow> length cuts = length is"
  by (induction "is" arbitrary: cuts) (auto split: sum.splits)

lemma validate_cuts_rejects: "validate_cuts i cuts = Some ret \<Longrightarrow> \<not> fst ret"
  by (induction i cuts rule: validate_cuts.induct) (auto split: if_splits)

lemma validate_cuts_None_iff:
  "validate_cuts i cuts = None \<longleftrightarrow>
     (\<forall>(x1, y1, x2, y2) \<in> set cuts. on_boundary x1 y1 \<and> on_boundary x2 y2)"
  by (induction i cuts rule: validate_cuts.induct) auto

text \<open>The claimed number of cuts and the cuts of an output, when its first line is an
  integer \<open>n\<close>, it has at least \<open>n + 1\<close> lines, and each of the lines \<open>1 .. n\<close> holds four
  integers.\<close>

definition rez_output :: "string list \<Rightarrow> (int \<times> cut list) option" where
  "rez_output actual_lines =
     (case py_int (strip (hd actual_lines)) of
        None \<Rightarrow> None
      | Some n \<Rightarrow>
          if int (length actual_lines) < n + 1 then None
          else (case read_cuts actual_lines [1..n] of
                  Inl ret \<Rightarrow> None
                | Inr cuts \<Rightarrow> Some (n, cuts)))"

lemma rez_verdict_accepts_iff:
  assumes "actual_lines \<noteq> []"
  shows "(\<exists>msg. rez_verdict k expected_n actual_lines = Inr (True, msg)) \<longleftrightarrow>
         (\<exists>n cuts.
            rez_output actual_lines = Some (n, cuts) \<and> n = expected_n \<and>
            validate_cuts 0 cuts = None \<and>
            k \<le> 1 + n + int (count_intersections cuts))"
proof -
  have len: "\<not> length actual_lines < 1" using assms by (cases actual_lines) simp_all
  show ?thesis
  proof (cases "py_int (strip (hd actual_lines))")
    case None
    with assms len show ?thesis
      by (simp add: rez_verdict_def rez_output_def py_nth_0)
  next
    case (Some n)
    show ?thesis
    proof (cases "n \<noteq> expected_n \<or> int (length actual_lines) < n + 1")
      case True
      with Some assms len show ?thesis
        by (auto simp: rez_verdict_def rez_output_def py_nth_0 split: sum.splits)
    next
      case False
      then have eq: "n = expected_n" and long: "\<not> int (length actual_lines) < n + 1"
        by simp_all
      show ?thesis
      proof (cases "read_cuts actual_lines [1..n]")
        case (Inl ret)
        then have "\<not> fst ret" by (rule read_cuts_rejects)
        then have "ret \<noteq> (True, msg)" for msg by auto
        with Inl Some eq long assms len show ?thesis
          by (simp add: rez_verdict_def rez_output_def py_nth_0)
      next
        case (Inr cuts)
        show ?thesis
        proof (cases "validate_cuts 0 cuts")
          case None
          with Inr Some eq long assms len show ?thesis
            by (auto simp: rez_verdict_def rez_output_def py_nth_0 Let_def)
        next
          case (Some ret)
          then have "\<not> fst ret" by (rule validate_cuts_rejects)
          then have "ret \<noteq> (True, msg)" for msg by auto
          with Some Inr \<open>py_int (strip (hd actual_lines)) = Some n\<close> eq long assms len
          show ?thesis
            by (simp add: rez_verdict_def rez_output_def py_nth_0)
        qed
      qed
    qed
  qed
qed

text \<open>\<^verbatim>\<open>count_intersections\<close> counts the pairs \<open>i < j\<close> of cuts for which
  \<^verbatim>\<open>line_intersection\<close> finds a point, as the double loop of the checker does.\<close>

definition crossing_pairs :: "cut list \<Rightarrow> (nat \<times> nat) set" where
  "crossing_pairs cuts =
     {(i, j). i < j \<and> j < length cuts \<and> line_intersection (cuts ! i) (cuts ! j) \<noteq> None}"

lemma finite_crossing_pairs [simp]: "finite (crossing_pairs cuts)"
proof (rule finite_subset)
  show "crossing_pairs cuts \<subseteq> {..<length cuts} \<times> {..<length cuts}"
    by (auto simp: crossing_pairs_def)
qed simp

lemma crossing_pairs_Cons:
  "crossing_pairs (c # rest) =
     (\<lambda>j. (0, Suc j)) ` {j. j < length rest \<and> line_intersection c (rest ! j) \<noteq> None} \<union>
     (\<lambda>(i, j). (Suc i, Suc j)) ` crossing_pairs rest"
  (is "?lhs = ?first \<union> ?others")
proof (rule set_eqI)
  fix p :: "nat \<times> nat"
  obtain i j where p: "p = (i, j)" by (cases p)
  show "p \<in> ?lhs \<longleftrightarrow> p \<in> ?first \<union> ?others"
  proof (cases i)
    case 0
    show ?thesis
    proof (cases j)
      case 0
      with \<open>i = 0\<close> p show ?thesis by (auto simp: crossing_pairs_def)
    next
      case (Suc j')
      with \<open>i = 0\<close> p show ?thesis by (auto simp: crossing_pairs_def)
    qed
  next
    case (Suc i')
    show ?thesis
    proof (cases j)
      case 0
      with Suc p show ?thesis by (auto simp: crossing_pairs_def)
    next
      case (Suc j')
      with \<open>i = Suc i'\<close> p show ?thesis by (auto simp: crossing_pairs_def)
    qed
  qed
qed

lemma count_intersections_card: "count_intersections cuts = card (crossing_pairs cuts)"
proof (induction cuts)
  case Nil
  then show ?case by (simp add: crossing_pairs_def)
next
  case (Cons c rest)
  let ?J = "{j. j < length rest \<and> line_intersection c (rest ! j) \<noteq> None}"
  let ?first = "(\<lambda>j. (0 :: nat, Suc j)) ` ?J"
  let ?others = "(\<lambda>(i, j). (Suc i, Suc j)) ` crossing_pairs rest"
  have "card ?first = card ?J"
    by (rule card_image) (simp add: inj_on_def)
  also have "\<dots> = length (filter (\<lambda>d. line_intersection c d \<noteq> None) rest)"
    by (simp add: length_filter_conv_card)
  finally have first: "card ?first = length (filter (\<lambda>d. line_intersection c d \<noteq> None) rest)" .
  have others: "card ?others = card (crossing_pairs rest)"
    by (rule card_image) (auto simp: inj_on_def)
  have "finite ?first" "finite ?others" by simp_all
  moreover have "?first \<inter> ?others = {}" by auto
  ultimately have "card (?first \<union> ?others) = card ?first + card ?others"
    by (rule card_Un_disjoint)
  with first others Cons.IH show ?case
    by (simp add: crossing_pairs_Cons)
qed

text \<open>
  The geometry of the claim, stated without the code: a point with integer coordinates is
  on the boundary of the square \<open>[-5000, 5000] \<times> [-5000, 5000]\<close>; a point of the plane
  is on the line through the endpoints of a cut; two cuts cross inside the square when
  the determinant of their directions is not zero and a point strictly inside the square
  is on both lines.
\<close>

definition square_boundary :: "int \<Rightarrow> int \<Rightarrow> bool" where
  "square_boundary x y \<longleftrightarrow> (\<bar>x\<bar> = 5000 \<and> \<bar>y\<bar> \<le> 5000) \<or> (\<bar>y\<bar> = 5000 \<and> \<bar>x\<bar> \<le> 5000)"

definition determinant :: "cut \<Rightarrow> cut \<Rightarrow> int" where
  "determinant c d =
     (case c of (x1, y1, x2, y2) \<Rightarrow>
      case d of (x3, y3, x4, y4) \<Rightarrow> (x2 - x1) * (y4 - y3) - (y2 - y1) * (x4 - x3))"

definition on_line :: "cut \<Rightarrow> rat \<times> rat \<Rightarrow> bool" where
  "on_line c p =
     (case c of (x1, y1, x2, y2) \<Rightarrow>
      case p of (px, py) \<Rightarrow>
        (px - of_int x1) * of_int (y2 - y1) = (py - of_int y1) * of_int (x2 - x1))"

definition strictly_inside :: "rat \<times> rat \<Rightarrow> bool" where
  "strictly_inside p = (case p of (px, py) \<Rightarrow> \<bar>px\<bar> < 5000 \<and> \<bar>py\<bar> < 5000)"

definition crossing_inside :: "cut \<Rightarrow> cut \<Rightarrow> bool" where
  "crossing_inside c d \<longleftrightarrow>
     determinant c d \<noteq> 0 \<and> (\<exists>p. on_line c p \<and> on_line d p \<and> strictly_inside p)"

lemma on_boundary_square_boundary: "on_boundary x y \<longleftrightarrow> square_boundary x y"
  by (simp only: on_boundary_iff square_boundary_def)

text \<open>Two lines whose determinant is not zero meet in one point only, the one
  \<^verbatim>\<open>line_intersection\<close> computes.\<close>

lemma lines_meet_once:
  fixes a1 a2 a3 a4 b1 b2 b3 b4 px py :: rat
  assumes D: "(a1 - a2) * (b3 - b4) - (b1 - b2) * (a3 - a4) \<noteq> 0"
    and l1: "(px - a1) * (b2 - b1) = (py - b1) * (a2 - a1)"
    and l2: "(px - a3) * (b4 - b3) = (py - b3) * (a4 - a3)"
  shows "px = a1 + ((a1 - a3) * (b3 - b4) - (b1 - b3) * (a3 - a4)) /
                   ((a1 - a2) * (b3 - b4) - (b1 - b2) * (a3 - a4)) * (a2 - a1)"
    and "py = b1 + ((a1 - a3) * (b3 - b4) - (b1 - b3) * (a3 - a4)) /
                   ((a1 - a2) * (b3 - b4) - (b1 - b2) * (a3 - a4)) * (b2 - b1)"
proof -
  define Dv where "Dv = (a1 - a2) * (b3 - b4) - (b1 - b2) * (a3 - a4)"
  define N where "N = (a1 - a3) * (b3 - b4) - (b1 - b3) * (a3 - a4)"
  have nz: "Dv \<noteq> 0" using D unfolding Dv_def .
  have N: "N = (px - a1) * (b4 - b3) - (py - b1) * (a4 - a3)"
    unfolding N_def using l2 by algebra
  have "N * (a2 - a1) = (px - a1) * (b4 - b3) * (a2 - a1) - (a4 - a3) * ((py - b1) * (a2 - a1))"
    unfolding N by algebra
  also have "\<dots> = (px - a1) * (b4 - b3) * (a2 - a1) - (a4 - a3) * ((px - a1) * (b2 - b1))"
    by (simp only: l1)
  also have "\<dots> = (px - a1) * Dv"
    unfolding Dv_def by algebra
  finally have "px - a1 = N / Dv * (a2 - a1)"
    using nz by (simp add: field_simps)
  then show "px = a1 + ((a1 - a3) * (b3 - b4) - (b1 - b3) * (a3 - a4)) /
                   ((a1 - a2) * (b3 - b4) - (b1 - b2) * (a3 - a4)) * (a2 - a1)"
    unfolding N_def Dv_def by simp
  have "N * (b2 - b1) = (b4 - b3) * ((px - a1) * (b2 - b1)) - (py - b1) * (a4 - a3) * (b2 - b1)"
    unfolding N by algebra
  also have "\<dots> = (b4 - b3) * ((py - b1) * (a2 - a1)) - (py - b1) * (a4 - a3) * (b2 - b1)"
    by (simp only: l1)
  also have "\<dots> = (py - b1) * Dv"
    unfolding Dv_def by algebra
  finally have "py - b1 = N / Dv * (b2 - b1)"
    using nz by (simp add: field_simps)
  then show "py = b1 + ((a1 - a3) * (b3 - b4) - (b1 - b3) * (a3 - a4)) /
                   ((a1 - a2) * (b3 - b4) - (b1 - b2) * (a3 - a4)) * (b2 - b1)"
    unfolding N_def Dv_def by simp
qed

text \<open>\<^verbatim>\<open>line_intersection\<close> finds a point exactly for the pairs of cuts that cross
  inside the square.\<close>

lemma line_intersection_crossing_inside:
  "line_intersection c d \<noteq> None \<longleftrightarrow> crossing_inside c d"
proof -
  obtain x1 y1 x2 y2 where c: "c = (x1, y1, x2, y2)" by (cases c)
  obtain x3 y3 x4 y4 where d: "d = (x3, y3, x4, y4)" by (cases d)
  have det: "determinant c d = (x1 - x2) * (y3 - y4) - (y1 - y2) * (x3 - x4)"
    unfolding c d determinant_def by (simp add: algebra_simps)
  show ?thesis
  proof
    assume "line_intersection c d \<noteq> None"
    then obtain px py where some: "line_intersection (x1, y1, x2, y2) (x3, y3, x4, y4) = Some (px, py)"
      unfolding c d by auto
    then have "(x1 - x2) * (y3 - y4) - (y1 - y2) * (x3 - x4) \<noteq> 0"
      by (simp add: line_intersection_Some_iff)
    moreover from line_intersection_point [OF some]
    have "on_line c (px, py)" "on_line d (px, py)" "strictly_inside (px, py)"
      unfolding c d by (simp_all add: on_line_def strictly_inside_def abs_less_iff)
    ultimately show "crossing_inside c d"
      unfolding crossing_inside_def det by blast
  next
    assume "crossing_inside c d"
    then obtain px py where nz: "(x1 - x2) * (y3 - y4) - (y1 - y2) * (x3 - x4) \<noteq> 0"
      and l1: "on_line c (px, py)" and l2: "on_line d (px, py)"
      and inside: "strictly_inside (px, py)"
      unfolding crossing_inside_def det by auto
    have D: "(of_int x1 - of_int x2) * (of_int y3 - of_int y4) -
             (of_int y1 - of_int y2) * (of_int x3 - of_int x4) \<noteq> (0 :: rat)"
    proof -
      have "(of_int ((x1 - x2) * (y3 - y4) - (y1 - y2) * (x3 - x4)) :: rat) \<noteq> 0"
        using nz by (simp only: of_int_eq_0_iff not_False_eq_True)
      then show ?thesis by simp
    qed
    have e1: "(px - of_int x1) * (of_int y2 - of_int y1) = (py - of_int y1) * (of_int x2 - of_int x1)"
      using l1 unfolding c on_line_def by simp
    have e2: "(px - of_int x3) * (of_int y4 - of_int y3) = (py - of_int y3) * (of_int x4 - of_int x3)"
      using l2 unfolding d on_line_def by simp
    note p = lines_meet_once [OF D e1 e2]
    have "line_intersection (x1, y1, x2, y2) (x3, y3, x4, y4) = Some (px, py)"
      unfolding line_intersection_Some_iff
    proof (intro conjI)
      show "(x1 - x2) * (y3 - y4) - (y1 - y2) * (x3 - x4) \<noteq> 0" by (rule nz)
      show "px = of_int x1 +
          of_int ((x1 - x3) * (y3 - y4) - (y1 - y3) * (x3 - x4)) /
          of_int ((x1 - x2) * (y3 - y4) - (y1 - y2) * (x3 - x4)) * of_int (x2 - x1)"
        using p(1) by simp
      show "py = of_int y1 +
          of_int ((x1 - x3) * (y3 - y4) - (y1 - y3) * (x3 - x4)) /
          of_int ((x1 - x2) * (y3 - y4) - (y1 - y2) * (x3 - x4)) * of_int (y2 - y1)"
        using p(2) by simp
      show "- 5000 < px" "px < 5000" "- 5000 < py" "py < 5000"
        using inside by (simp_all add: strictly_inside_def abs_less_iff)
    qed
    then show "line_intersection c d \<noteq> None" unfolding c d by simp
  qed
qed

lemma crossing_pairs_eq:
  "crossing_pairs cuts =
     {(i, j). i < j \<and> j < length cuts \<and> crossing_inside (cuts ! i) (cuts ! j)}"
  by (simp only: crossing_pairs_def line_intersection_crossing_inside)

lemma count_intersections_crossing_inside:
  "count_intersections cuts =
     card {(i, j). i < j \<and> j < length cuts \<and> crossing_inside (cuts ! i) (cuts ! j)}"
  by (simp only: count_intersections_card crossing_pairs_eq)

text \<open>\<^verbatim>\<open>checker_rez\<close> accepts exactly when the input, the expected output and the
  output parse and the three conditions of the code hold.\<close>

lemma checker_rez_accepts_code:
  "fst (checker_rez pid input_data expected (PyStr actual)) \<longleftrightarrow>
   (\<exists>k expected_n n cuts.
      py_int (strip input_data) = Some k \<and>
      py_int (strip (hd (split_on LF (strip expected)))) = Some expected_n \<and>
      rez_output (split_on LF (strip actual)) = Some (n, cuts) \<and>
      length cuts = nat n \<and>
      n = expected_n \<and>
      (\<forall>(x1, y1, x2, y2) \<in> set cuts. on_boundary x1 y1 \<and> on_boundary x2 y2) \<and>
      k \<le> 1 + n + int (count_intersections cuts))"
  (is "?lhs \<longleftrightarrow> ?rhs")
proof
  assume ?lhs
  then obtain msg k expected_n where
    inp: "py_int (strip input_data) = Some k" and
    exp: "py_int (strip (hd (split_on LF (strip expected)))) = Some expected_n" and
    verdict: "rez_verdict k expected_n (split_on LF (strip actual)) = Inr (True, msg)"
    by (auto simp: checker_rez_def catch_all_fst Let_def then_do_Inr_iff py_nth_0
          int_of_str_Inr_iff)
  from verdict obtain n cuts where
    out: "rez_output (split_on LF (strip actual)) = Some (n, cuts)" and
    rest: "n = expected_n" "validate_cuts 0 cuts = None"
      "k \<le> 1 + n + int (count_intersections cuts)"
    using rez_verdict_accepts_iff [of "split_on LF (strip actual)" k expected_n]
    by auto
  from out have "read_cuts (split_on LF (strip actual)) [1..n] = Inr cuts"
    by (auto simp: rez_output_def split: option.splits if_splits sum.splits)
  then have "length cuts = nat n"
    by (simp add: read_cuts_length)
  with inp exp out rest show ?rhs
    unfolding validate_cuts_None_iff by blast
next
  assume ?rhs
  then obtain k expected_n n cuts where
    inp: "py_int (strip input_data) = Some k" and
    exp: "py_int (strip (hd (split_on LF (strip expected)))) = Some expected_n" and
    out: "rez_output (split_on LF (strip actual)) = Some (n, cuts)" and
    eq: "n = expected_n" and
    boundary: "\<forall>(x1, y1, x2, y2) \<in> set cuts. on_boundary x1 y1 \<and> on_boundary x2 y2" and
    pieces: "k \<le> 1 + n + int (count_intersections cuts)"
    by blast
  from boundary have "validate_cuts 0 cuts = None"
    by (simp add: validate_cuts_None_iff)
  with out eq pieces obtain msg where
    "rez_verdict k expected_n (split_on LF (strip actual)) = Inr (True, msg)"
    using rez_verdict_accepts_iff [of "split_on LF (strip actual)" k expected_n]
    by auto
  with inp exp show ?lhs
    by (simp add: checker_rez_def catch_all_fst Let_def py_nth_0 int_of_str_def)
qed

text \<open>
  Claim C7.  \<^verbatim>\<open>checker_rez\<close> accepts an output exactly when the input, the expected
  output and the output parse (the requested number of pieces \<open>k\<close>; the expected number
  of cuts; the claimed number \<open>n\<close> and \<open>n\<close> cuts of four integers each) and: the claimed
  number of cuts equals the expected one; both endpoints of every cut are on the boundary
  of the square \<open>[-5000, 5000] \<times> [-5000, 5000]\<close>; and \<open>1 + n +\<close> the number of pairs
  of cuts that cross strictly inside the square, pairs with determinant zero excluded, is
  at least \<open>k\<close>.
\<close>

theorem checker_rez_accepts_iff:
  "fst (checker_rez pid input_data expected (PyStr actual)) \<longleftrightarrow>
   (\<exists>k expected_n n cuts.
      py_int (strip input_data) = Some k \<and>
      py_int (strip (hd (split_on LF (strip expected)))) = Some expected_n \<and>
      rez_output (split_on LF (strip actual)) = Some (n, cuts) \<and>
      length cuts = nat n \<and>
      n = expected_n \<and>
      (\<forall>(x1, y1, x2, y2) \<in> set cuts. square_boundary x1 y1 \<and> square_boundary x2 y2) \<and>
      k \<le> 1 + n +
          int (card {(i, j). i < j \<and> j < length cuts \<and> crossing_inside (cuts ! i) (cuts ! j)}))"
  by (simp only: checker_rez_accepts_code on_boundary_square_boundary
      count_intersections_crossing_inside)

text \<open>The examples of the specification: four pieces requested and two cuts through the
  centre, which cross in \<open>(0, 0)\<close>; and an endpoint \<open>(4999, 0)\<close>, which is not on the
  boundary.\<close>

definition ex_rez_actual :: string where
  "ex_rez_actual = ''2'' @ [LF] @ ''-5000 0 5000 0'' @ [LF] @ ''0 -5000 0 5000''"

lemma ex_rez_accepted:
  "checker_rez ''rez'' ''4'' ''2'' (PyStr ex_rez_actual) = (True, ''OK'')"
  by code_simp

lemma ex_rez_off_boundary_rejected:
  "checker_rez ''rez'' ''4'' ''2''
     (PyStr (''2'' @ [LF] @ ''-5000 0 4999 0'' @ [LF] @ ''0 -5000 0 5000'')) =
     (False, ''Cut 1 endpoint (4999, 0) not on boundary'')"
  by code_simp

lemma ex_rez_output:
  "rez_output (split_on LF (strip ex_rez_actual)) =
     Some (2, [(- 5000, 0, 5000, 0), (0, - 5000, 0, 5000)])"
  by code_simp

lemma ex_rez_intersections:
  "count_intersections [(- 5000, 0, 5000, 0), (0, - 5000, 0, 5000)] = 1"
  by code_simp

definition ex_rez_cuts :: "cut list" where
  "ex_rez_cuts = [(- 5000, 0, 5000, 0), (0, - 5000, 0, 5000)]"

theorem checker_rez_accepts_iff_witness:
  "fst (checker_rez ''rez'' ''4'' ''2'' (PyStr ex_rez_actual)) \<and>
   square_boundary (- 5000) 0 \<and> square_boundary 5000 0 \<and>
   square_boundary 0 (- 5000) \<and> square_boundary 0 5000 \<and>
   (4 :: int) \<le> 1 + 2 +
     int (card {(i, j). i < j \<and> j < length ex_rez_cuts \<and>
                        crossing_inside (ex_rez_cuts ! i) (ex_rez_cuts ! j)})"
proof -
  have accepted: "fst (checker_rez ''rez'' ''4'' ''2'' (PyStr ex_rez_actual))"
    by (simp add: ex_rez_accepted)
  then obtain k n cuts where
    k: "py_int (strip ''4'') = Some k" and
    out: "rez_output (split_on LF (strip ex_rez_actual)) = Some (n, cuts)" and
    boundary: "\<forall>(x1, y1, x2, y2) \<in> set cuts. square_boundary x1 y1 \<and> square_boundary x2 y2" and
    pieces: "k \<le> 1 + n +
      int (card {(i, j). i < j \<and> j < length cuts \<and> crossing_inside (cuts ! i) (cuts ! j)})"
    using checker_rez_accepts_iff [of "''rez''" "''4''" "''2''" ex_rez_actual]
    by blast
  have "py_int (strip ''4'') = Some 4" by code_simp
  with k have k4: "k = 4" by simp
  from out have n: "n = 2" and cuts: "cuts = ex_rez_cuts"
    by (simp_all add: ex_rez_output ex_rez_cuts_def)
  from boundary have "square_boundary (- 5000) 0 \<and> square_boundary 5000 0 \<and>
      square_boundary 0 (- 5000) \<and> square_boundary 0 5000"
    unfolding cuts by (simp add: ex_rez_cuts_def)
  with accepted pieces show ?thesis
    unfolding k4 n cuts by simp
qed

subsection \<open>\<^verbatim>\<open>default_checker\<close>\<close>

text \<open>
  A Python float is an IEEE 754 double.  A finite double is modelled by the rational
  number it stands for; besides there are the negative zero, the two infinities and
  \<open>nan\<close>.  Reading a literal and every arithmetic operation give the double nearest to
  the exact result, a tie going to the even significand, and an infinity beyond the
  largest double.
\<close>

datatype pyfloat = Finite rat | NegZero | PosInf | NegInf | NaN

text \<open>The integer nearest to a rational number, a tie going to the even one.\<close>

definition round_half_even :: "rat \<Rightarrow> int" where
  "round_half_even r =
     (let f = \<lfloor>r\<rfloor>; d = r - of_int f
      in if d < 1 / 2 then f else if 1 / 2 < d then f + 1 else if even f then f else f + 1)"

text \<open>The exponent \<open>l\<close> of a positive number \<open>x\<close>: \<open>2 ^ l \<le> x < 2 ^ (l + 1)\<close>.\<close>

definition floor_log2 :: "rat \<Rightarrow> int" where
  "floor_log2 x =
     (if 1 \<le> x then bitlen \<lfloor>x\<rfloor> - 1
      else (let k = bitlen \<lfloor>1 / x\<rfloor> - 1 in if x * 2 powi k = 1 then - k else - k - 1))"

text \<open>
  A number \<open>x \<ge> 0\<close> rounded to 53 significant bits, and to a multiple of \<open>2 ^ -1074\<close>
  below \<open>2 ^ -1022\<close> (the subnormal doubles): the magnitude of the double nearest to
  \<open>x\<close>, when that is at most the largest double.
\<close>

definition round_mag :: "rat \<Rightarrow> rat" where
  "round_mag x =
     (if x = 0 then 0
      else (let e = max (floor_log2 x - 52) (- 1074)
            in of_int (round_half_even (x / 2 powi e)) * 2 powi e))"

text \<open>The double nearest to \<open>x\<close>: an infinity when the rounded magnitude reaches
  \<open>2 ^ 1024\<close>, the negative zero when a negative number rounds to zero.\<close>

definition double_limit :: rat where
  "double_limit = 2 ^ 1024"

definition round_double :: "rat \<Rightarrow> pyfloat" where
  "round_double x =
     (let r = round_mag \<bar>x\<bar>
      in if double_limit \<le> r then (if 0 < x then PosInf else NegInf)
         else if x < 0 then (if r = 0 then NegZero else Finite (- r))
         else Finite r)"

text \<open>
  \<open>float(s)\<close> on a string: white space around the literal is dropped, a sign may come
  first, then \<open>inf\<close>, \<open>infinity\<close> or \<open>nan\<close> in any case, or a decimal number with an
  optional fraction and an optional exponent; single underscores may stand between digits.
  The decimal number is rounded to the nearest double.  \<open>None\<close> stands for the
  \<open>ValueError\<close>.
\<close>

definition lower :: "char \<Rightarrow> char" where
  "lower c =
     (let n = (of_char c :: int) in if 65 \<le> n \<and> n \<le> 90 then char_of (n + 32) else c)"

definition mantissa :: "string \<Rightarrow> rat option" where
  "mantissa s =
     (let int_part = takeWhile (\<lambda>c. c \<noteq> CHR ''.'') s;
          dot_frac = dropWhile (\<lambda>c. c \<noteq> CHR ''.'') s
      in if dot_frac = [] then map_option of_int (digitpart False 0 int_part)
         else
           (let frac_part = tl dot_frac in
            if int_part = [] \<and> frac_part = [] then None
            else
              (case (if int_part = [] then Some 0 else digitpart False 0 int_part,
                     if frac_part = [] then Some 0 else digitpart False 0 frac_part) of
                 (Some i, Some f) \<Rightarrow>
                   Some (of_int i + of_int f / 10 ^ length (filter is_digit frac_part))
               | _ \<Rightarrow> None)))"

definition exponent :: "string \<Rightarrow> int option" where
  "exponent s =
     (case s of
        [] \<Rightarrow> None
      | c # r \<Rightarrow>
          if c = CHR ''-'' then map_option uminus (digitpart False 0 r)
          else if c = CHR ''+'' then digitpart False 0 r
          else digitpart False 0 (c # r))"

definition float_number :: "string \<Rightarrow> rat option" where
  "float_number s =
     (let is_e = (\<lambda>c. c = CHR ''e'' \<or> c = CHR ''E'');
          mant = takeWhile (\<lambda>c. \<not> is_e c) s;
          e_exp = dropWhile (\<lambda>c. \<not> is_e c) s
      in case mantissa mant of
           None \<Rightarrow> None
         | Some m \<Rightarrow>
             if e_exp = [] then Some m
             else (case exponent (tl e_exp) of
                     None \<Rightarrow> None
                   | Some x \<Rightarrow> Some (m * 10 powi x)))"

definition unsigned_float :: "string \<Rightarrow> pyfloat option" where
  "unsigned_float s =
     (if map lower s = ''inf'' \<or> map lower s = ''infinity'' then Some PosInf
      else if map lower s = ''nan'' then Some NaN
      else map_option round_double (float_number s))"

fun negate :: "pyfloat \<Rightarrow> pyfloat" where
  "negate (Finite x) = (if x = 0 then NegZero else Finite (- x))"
| "negate NegZero = Finite 0"
| "negate PosInf = NegInf"
| "negate NegInf = PosInf"
| "negate NaN = NaN"

definition py_float :: "string \<Rightarrow> pyfloat option" where
  "py_float s =
     (case strip s of
        [] \<Rightarrow> None
      | c # r \<Rightarrow>
          if c = CHR ''-'' then map_option negate (unsigned_float r)
          else if c = CHR ''+'' then unsigned_float r
          else unsigned_float (c # r))"

text \<open>\<^verbatim>\<open>_parse_floats\<close>: the floats of the tokens, or \<open>None\<close> when a token is no float.\<close>

definition parse_floats :: "string \<Rightarrow> pyfloat list option" where
  "parse_floats s = those (map py_float (split_ws s))"

text \<open>The value of a finite float, \<open>fabs\<close>, and \<open>\<le>\<close> on floats: \<open>nan\<close> compares false
  with everything.\<close>

fun finite_value :: "pyfloat \<Rightarrow> rat option" where
  "finite_value (Finite x) = Some x"
| "finite_value NegZero = Some 0"
| "finite_value f = None"

fun fabs :: "pyfloat \<Rightarrow> pyfloat" where
  "fabs (Finite x) = Finite \<bar>x\<bar>"
| "fabs NegZero = Finite 0"
| "fabs PosInf = PosInf"
| "fabs NegInf = PosInf"
| "fabs NaN = NaN"

definition fle :: "pyfloat \<Rightarrow> pyfloat \<Rightarrow> bool" where
  "fle a b =
     (a \<noteq> NaN \<and> b \<noteq> NaN \<and>
      (a = NegInf \<or> b = PosInf \<or>
       (case (finite_value a, finite_value b) of (Some x, Some y) \<Rightarrow> x \<le> y | _ \<Rightarrow> False)))"

text \<open>
  \<open>math.isclose(a, b, rel_tol, abs_tol)\<close> for tolerances that are finite and not
  negative.  Equal values are close; an infinity is close only to itself and \<open>nan\<close> to
  nothing; for two finite values, \<open>diff = fabs(b - a)\<close> and the result is
  \<open>diff <= fabs(rel_tol * b) or diff <= fabs(rel_tol * a) or diff <= abs_tol\<close>, where the
  difference and the products are doubles.
\<close>

definition isclose :: "pyfloat \<Rightarrow> pyfloat \<Rightarrow> rat \<Rightarrow> rat \<Rightarrow> bool" where
  "isclose a b rel_tol abs_tol =
     (case (finite_value a, finite_value b) of
        (Some x, Some y) \<Rightarrow>
          x = y \<or>
          (let diff = fabs (round_double (y - x))
           in fle diff (fabs (round_double (rel_tol * y))) \<or>
              fle diff (fabs (round_double (rel_tol * x))) \<or>
              fle diff (Finite abs_tol))
      | _ \<Rightarrow> a = b \<and> a \<noteq> NaN)"

text \<open>\<^verbatim>\<open>_floats_equal\<close> with its default tolerances, the doubles of the literals \<open>1e-6\<close>
  and \<open>1e-9\<close>.\<close>

definition default_rel_tol :: rat where
  "default_rel_tol = round_mag (1 / 10 ^ 6)"

definition default_abs_tol :: rat where
  "default_abs_tol = round_mag (1 / 10 ^ 9)"

definition floats_equal :: "pyfloat \<Rightarrow> pyfloat \<Rightarrow> bool" where
  "floats_equal a b = isclose a b default_rel_tol default_abs_tol"

text \<open>
  The inner loop over \<open>enumerate(zip(exp_floats, act_floats))\<close> and the outer loop over
  \<open>enumerate(zip(expected_lines, actual_lines))\<close>: \<open>Some\<close> is the early return.  The text
  of a float in a message is Python's \<open>repr\<close> of it, which the model takes as the
  parameter \<open>float_str\<close>.
\<close>

fun compare_tokens ::
  "(pyfloat \<Rightarrow> string) \<Rightarrow> nat \<Rightarrow> nat \<Rightarrow> (pyfloat \<times> pyfloat) list \<Rightarrow> (bool \<times> string) option" where
  "compare_tokens float_str i j [] = None"
| "compare_tokens float_str i j ((e, a) # rest) =
     (if \<not> floats_equal e a then
        Some (False, ''Line '' @ str_nat (i + 1) @ '', token '' @ str_nat (j + 1) @
                     '': expected '' @ float_str e @ '', got '' @ float_str a)
      else compare_tokens float_str i (j + 1) rest)"

fun compare_lines ::
  "(pyfloat \<Rightarrow> string) \<Rightarrow> nat \<Rightarrow> (string \<times> string) list \<Rightarrow> (bool \<times> string) option" where
  "compare_lines float_str i [] = None"
| "compare_lines float_str i ((exp_line0, act_line0) # rest) =
     (let exp_line = strip exp_line0;
          act_line = strip act_line0;
          exp_floats = parse_floats exp_line;
          act_floats = parse_floats act_line
      in if exp_floats \<noteq> None \<and> act_floats \<noteq> None \<and>
            length (the exp_floats) = length (the act_floats) then
           (case compare_tokens float_str i 0 (zip (the exp_floats) (the act_floats)) of
              Some ret \<Rightarrow> Some ret
            | None \<Rightarrow> compare_lines float_str (i + 1) rest)
         else if exp_line \<noteq> act_line then
           Some (False, ''Line '' @ str_nat (i + 1) @ '': expected '' @ [CHR 0x27] @ exp_line @
                        [CHR 0x27] @ '', got '' @ [CHR 0x27] @ act_line @ [CHR 0x27])
         else compare_lines float_str (i + 1) rest)"

text \<open>\<^verbatim>\<open>default_checker\<close> has no \<open>try\<close>: an actual output that is no string raises.\<close>

definition default_checker ::
  "(pyfloat \<Rightarrow> string) \<Rightarrow> string \<Rightarrow> string \<Rightarrow> string \<Rightarrow> pyval \<Rightarrow> pyexn + bool \<times> string" where
  "default_checker float_str pid input_data expected actual =
     (let expected_lines = split_on LF (strip expected) in
      then_do (strip_val actual) (\<lambda>actual_stripped.
      let actual_lines = split_on LF actual_stripped in
      if length expected_lines \<noteq> length actual_lines then
        Inr (False, ''Line count mismatch: expected '' @ str_nat (length expected_lines) @
                    '', got '' @ str_nat (length actual_lines))
      else
        (case compare_lines float_str 0 (zip expected_lines actual_lines) of
           Some ret \<Rightarrow> Inr ret
         | None \<Rightarrow> Inr (True, ''OK''))))"

subsection \<open>Facts about \<^verbatim>\<open>default_checker\<close>\<close>

text \<open>The limit as a product of smaller powers, for evaluation.\<close>

lemma double_limit_code [code]: "double_limit = (2 ^ 32) ^ 32"
  by (simp add: double_limit_def)

text \<open>Rounding to the nearest integer errs by at most a half.\<close>

lemma round_half_even_error: "\<bar>of_int (round_half_even r) - r\<bar> \<le> 1 / 2"
proof -
  have "of_int \<lfloor>r\<rfloor> \<le> r" "r < of_int \<lfloor>r\<rfloor> + 1" by linarith+
  then show ?thesis
    by (auto simp add: round_half_even_def Let_def abs_le_iff)
qed

lemma round_half_even_nonneg: "0 \<le> r \<Longrightarrow> 0 \<le> round_half_even r"
  by (auto simp add: round_half_even_def Let_def)

text \<open>\<^verbatim>\<open>floor_log2\<close> is the exponent of a positive number.\<close>

lemma floor_log2_ge_1:
  assumes "1 \<le> x"
  shows "2 powi floor_log2 x \<le> x \<and> x < 2 powi (floor_log2 x + 1)"
proof -
  let ?n = "\<lfloor>x\<rfloor>"
  have n: "0 < ?n" using assms by linarith
  from bitlen_bounds [OF n] have lo: "2 ^ nat (bitlen ?n - 1) \<le> ?n" and hi: "?n < 2 ^ nat (bitlen ?n)"
    by simp_all
  have pos: "1 \<le> bitlen ?n" using n by (simp add: bitlen_def floorlog_def)
  have fl: "floor_log2 x = bitlen ?n - 1" using assms by (simp add: floor_log2_def)
  have "(2 :: rat) powi (bitlen ?n - 1) = 2 ^ nat (bitlen ?n - 1)"
    using pos by (simp add: power_int_def)
  also have "\<dots> = of_int (2 ^ nat (bitlen ?n - 1))" by simp
  also have "\<dots> \<le> of_int ?n" using lo by (simp only: of_int_le_iff)
  also have "\<dots> \<le> x" by simp
  finally have low: "2 powi floor_log2 x \<le> x" using fl by simp
  have "x < of_int (?n + 1)" by linarith
  also have "\<dots> \<le> of_int (2 ^ nat (bitlen ?n))" using hi by (simp only: of_int_le_iff)
  also have "\<dots> = 2 ^ nat (bitlen ?n)" by simp
  also have "\<dots> = (2 :: rat) powi (bitlen ?n)" using pos by (simp add: power_int_def)
  finally have "x < 2 powi (floor_log2 x + 1)" using fl by simp
  with low show ?thesis by simp
qed

lemma floor_log2_bounds:
  assumes "0 < x"
  shows "2 powi floor_log2 x \<le> x \<and> x < 2 powi (floor_log2 x + 1)"
proof (cases "1 \<le> x")
  case True
  then show ?thesis by (rule floor_log2_ge_1)
next
  case False
  define y where "y = 1 / x"
  define k where "k = bitlen \<lfloor>y\<rfloor> - 1"
  have y: "1 \<le> y" "0 < y" using assms False by (simp_all add: y_def)
  have x: "x = 1 / y" using assms by (simp add: y_def)
  have yk: "floor_log2 y = k" using y by (simp add: floor_log2_def k_def)
  from floor_log2_ge_1 [OF y(1)] have lo: "2 powi k \<le> y" and hi: "y < 2 powi (k + 1)"
    by (simp_all add: yk)
  have p: "(0 :: rat) < 2 powi k" "(0 :: rat) < 2 powi (k + 1)" by simp_all
  show ?thesis
  proof (cases "x * 2 powi k = 1")
    case True
    then have fl: "floor_log2 x = - k" using False by (simp add: floor_log2_def k_def y_def)
    from True have xe: "x = 2 powi (- k)"
      by (simp add: power_int_minus field_simps)
    have "(2 :: rat) powi (- k + 1) = 2 powi (- k) * 2"
      by (rule power_int_add_1) simp
    with xe assms show ?thesis unfolding fl by simp
  next
    case ne: False
    then have fl: "floor_log2 x = - k - 1" using False by (simp add: floor_log2_def k_def y_def)
    have "y \<noteq> 2 powi k"
    proof
      assume "y = 2 powi k"
      then have "x * 2 powi k = 1" using x by simp
      with ne show False by simp
    qed
    with lo have lo': "2 powi k < y" by simp
    have a: "(2 :: rat) powi (- k - 1) = 1 / 2 powi (k + 1)"
      by (simp add: power_int_minus field_simps power_int_diff power_int_add)
    have b: "(2 :: rat) powi (- k - 1 + 1) = 1 / 2 powi k"
      by (simp add: power_int_minus field_simps)
    have "1 / 2 powi (k + 1) \<le> 1 / y" using hi y p by (simp add: frac_le)
    moreover have "1 / y < 1 / 2 powi k" using lo' y p by (simp add: frac_less2)
    ultimately have "2 powi (- k - 1) \<le> x \<and> x < 2 powi (- k - 1 + 1)"
      unfolding a b x by simp
    then show ?thesis unfolding fl .
  qed
qed

text \<open>Rounding to a double errs by at most \<open>2 ^ -53\<close> of the number, or by at most
  \<open>2 ^ -1075\<close> for a number in the subnormal range.\<close>

lemma round_mag_error:
  assumes "0 \<le> x"
  shows "\<bar>round_mag x - x\<bar> \<le> max (x / 2 ^ 53) (1 / 2 ^ 1075)"
proof (cases "x = 0")
  case True
  then show ?thesis by (simp add: round_mag_def)
next
  case False
  with assms have pos: "0 < x" by simp
  define e where "e = max (floor_log2 x - 52) (- 1074)"
  define q where "q = round_half_even (x / 2 powi e)"
  have r: "round_mag x = of_int q * 2 powi e"
    using False by (simp add: round_mag_def Let_def e_def q_def)
  have p: "(0 :: rat) < 2 powi e" by simp
  have "\<bar>of_int q - x / 2 powi e\<bar> \<le> 1 / 2"
    unfolding q_def by (rule round_half_even_error)
  then have "\<bar>of_int q - x / 2 powi e\<bar> * 2 powi e \<le> 1 / 2 * 2 powi e"
    using p by (simp only: mult_le_cancel_right_pos)
  moreover have "\<bar>of_int q - x / 2 powi e\<bar> * 2 powi e = \<bar>of_int q * 2 powi e - x\<bar>"
  proof -
    have "\<bar>of_int q - x / 2 powi e\<bar> * 2 powi e = \<bar>(of_int q - x / 2 powi e) * 2 powi e\<bar>"
      using p by (simp add: abs_mult)
    also have "(of_int q - x / 2 powi e) * 2 powi e = of_int q * 2 powi e - x"
      using p by (simp add: field_simps)
    finally show ?thesis .
  qed
  ultimately have err: "\<bar>round_mag x - x\<bar> \<le> 2 powi e / 2" unfolding r by simp
  show ?thesis
  proof (cases "floor_log2 x - 52 \<le> - 1074")
    case True
    then have "e = - 1074" by (simp add: e_def)
    with err have "\<bar>round_mag x - x\<bar> \<le> 2 powi (- 1074) / 2" by simp
    also have "(2 :: rat) powi (- 1074) / 2 = 1 / 2 ^ 1075"
      by (simp add: power_int_minus)
    finally show ?thesis by (rule max.coboundedI2)
  next
    case False
    then have e: "e = floor_log2 x - 52" by (simp add: e_def)
    have "(2 :: rat) powi e / 2 = 2 powi floor_log2 x / 2 ^ 53"
      unfolding e by (simp add: power_int_diff)
    also have "\<dots> \<le> x / 2 ^ 53"
      using floor_log2_bounds [OF pos] by (simp add: divide_right_mono)
    finally have "2 powi e / 2 \<le> x / 2 ^ 53" .
    with err have "\<bar>round_mag x - x\<bar> \<le> x / 2 ^ 53" by (rule order_trans)
    then show ?thesis by (rule max.coboundedI1)
  qed
qed

lemma round_mag_nonneg: "0 \<le> x \<Longrightarrow> 0 \<le> round_mag x"
  by (simp add: round_mag_def Let_def round_half_even_nonneg)

text \<open>The doubles of \<open>1e-6\<close> and \<open>1e-9\<close>.\<close>

lemma rel_tol_value: "default_rel_tol = 4722366482869645 / 4722366482869645213696"
  by code_simp

lemma abs_tol_value: "default_abs_tol = 4835703278458517 / 4835703278458516698824704"
  by code_simp

lemma tiny: "(1 :: rat) / 2 ^ 1075 \<le> 1 / 10 ^ 30"
  by simp

lemma round_mag_bounds:
  assumes "0 \<le> x"
  shows "round_mag x \<le> x + x / 2 ^ 53 + 1 / 10 ^ 30" and "x \<le> round_mag x + x / 2 ^ 53 + 1 / 10 ^ 30"
proof -
  have "max (x / 2 ^ 53) (1 / 2 ^ 1075) \<le> x / 2 ^ 53 + 1 / 2 ^ 1075"
    using assms by simp
  also have "\<dots> \<le> x / 2 ^ 53 + 1 / 10 ^ 30"
    using tiny by (simp only: add_left_mono)
  finally have "\<bar>round_mag x - x\<bar> \<le> x / 2 ^ 53 + 1 / 10 ^ 30"
    using round_mag_error [OF assms] by (rule order_trans [rotated])
  then show "round_mag x \<le> x + x / 2 ^ 53 + 1 / 10 ^ 30"
    and "x \<le> round_mag x + x / 2 ^ 53 + 1 / 10 ^ 30"
    by (simp_all only: abs_le_iff) linarith+
qed

lemma fabs_round_double:
  "fabs (round_double z) =
     (if 2 ^ 1024 \<le> round_mag \<bar>z\<bar> then PosInf else Finite (round_mag \<bar>z\<bar>))"
proof -
  have "0 \<le> round_mag \<bar>z\<bar>" by (simp add: round_mag_nonneg)
  then show ?thesis by (auto simp add: round_double_def double_limit_def Let_def)
qed

lemma fle_Finite [simp]: "fle (Finite x) (Finite y) \<longleftrightarrow> x \<le> y"
  by (simp add: fle_def)

lemma fle_PosInf_Finite [simp]: "\<not> fle PosInf (Finite y)"
  by (simp add: fle_def)

text \<open>The rounded magnitude of a value below \<open>2 ^ 1023\<close> is finite.\<close>

lemma round_mag_no_overflow:
  assumes "0 \<le> x" and "x \<le> 2 ^ 1023"
  shows "\<not> 2 ^ 1024 \<le> round_mag x"
proof -
  have "round_mag x \<le> x + x / 2 ^ 53 + 1 / 10 ^ 30"
    using assms(1) by (rule round_mag_bounds)
  also have "\<dots> \<le> 2 ^ 1023 + 2 ^ 1023 / 2 ^ 53 + 1 / 10 ^ 30"
    using assms(2) by (simp add: add_mono divide_right_mono)
  also have "\<dots> < 2 ^ 1024" by simp
  finally show ?thesis by simp
qed

text \<open>The comparison of \<open>math.isclose\<close> on two different finite values, in terms of the
  rounded magnitudes.\<close>

lemma isclose_finite:
  assumes "finite_value E = Some b" and "finite_value A = Some a"
    and "\<bar>a\<bar> < 2 ^ 1024" and "\<bar>b\<bar> < 2 ^ 1024"
  shows "floats_equal E A \<longleftrightarrow>
     a = b \<or>
     (\<not> 2 ^ 1024 \<le> round_mag \<bar>a - b\<bar> \<and>
      (round_mag \<bar>a - b\<bar> \<le> round_mag (default_rel_tol * \<bar>a\<bar>) \<or>
       round_mag \<bar>a - b\<bar> \<le> round_mag (default_rel_tol * \<bar>b\<bar>) \<or>
       round_mag \<bar>a - b\<bar> \<le> default_abs_tol))"
proof -
  have small: "\<not> 2 ^ 1024 \<le> round_mag \<bar>default_rel_tol * x\<bar>" if "\<bar>x\<bar> < 2 ^ 1024" for x
  proof (rule round_mag_no_overflow)
    show "0 \<le> \<bar>default_rel_tol * x\<bar>" by simp
    have "\<bar>default_rel_tol * x\<bar> = default_rel_tol * \<bar>x\<bar>"
      by (simp add: abs_mult rel_tol_value)
    also have "\<dots> \<le> 1 / 2 * \<bar>x\<bar>"
      by (rule mult_right_mono) (simp_all add: rel_tol_value)
    also have "\<dots> \<le> 1 / 2 * 2 ^ 1024" using that by simp
    also have "\<dots> = 2 ^ 1023" by simp
    finally show "\<bar>default_rel_tol * x\<bar> \<le> 2 ^ 1023" .
  qed
  have m: "\<bar>default_rel_tol * x\<bar> = default_rel_tol * \<bar>x\<bar>" for x
    by (simp add: abs_mult rel_tol_value)
  have "\<bar>a - b\<bar> = \<bar>b - a\<bar>" by simp
  show ?thesis
    using assms small [OF assms(3)] small [OF assms(4)]
    by (auto simp add: floats_equal_def isclose_def Let_def fabs_round_double m abs_minus_commute)
qed

text \<open>The arithmetic of the two bounds: \<open>d\<close> is the exact difference, \<open>rd\<close> its double,
  \<open>m\<close> a magnitude and \<open>c\<close> the double of \<open>1e-6 * m\<close>.\<close>

lemma close_sufficient:
  fixes d m rd c :: rat
  assumes d: "0 \<le> d" and m: "0 \<le> m"
    and rd: "rd \<le> d + d / 2 ^ 53 + 1 / 10 ^ 30"
    and c: "4722366482869645 / 4722366482869645213696 * m \<le>
            c + 4722366482869645 / 4722366482869645213696 * m / 2 ^ 53 + 1 / 10 ^ 30"
    and le: "d \<le> (1 - 1 / 2 ^ 50) * (1 / 10 ^ 6 * m)"
    and big: "1 / 10 ^ 3 \<le> m"
  shows "rd \<le> c"
  using assms by simp

lemma abs_sufficient:
  fixes d rd :: rat
  assumes d: "0 \<le> d"
    and rd: "rd \<le> d + d / 2 ^ 53 + 1 / 10 ^ 30"
    and le: "d \<le> (1 - 1 / 2 ^ 50) * (1 / 10 ^ 9)"
  shows "rd \<le> 4835703278458517 / 4835703278458516698824704"
  using assms by simp

lemma close_necessary:
  fixes d m rd c :: rat
  assumes d: "0 \<le> d" and m: "0 \<le> m"
    and rd: "d \<le> rd + d / 2 ^ 53 + 1 / 10 ^ 30"
    and c: "c \<le> 4722366482869645 / 4722366482869645213696 * m +
              4722366482869645 / 4722366482869645213696 * m / 2 ^ 53 + 1 / 10 ^ 30"
    and le: "rd \<le> c"
  shows "d \<le> (1 + 1 / 2 ^ 50) * (1 / 10 ^ 9) \<or> d \<le> (1 + 1 / 2 ^ 50) * (1 / 10 ^ 6 * m)"
proof (cases "m \<le> 1 / 10 ^ 3")
  case True
  with assms have "d \<le> (1 + 1 / 2 ^ 50) * (1 / 10 ^ 9)" by simp
  then show ?thesis ..
next
  case False
  with assms have "d \<le> (1 + 1 / 2 ^ 50) * (1 / 10 ^ 6 * m)" by simp
  then show ?thesis ..
qed

lemma abs_necessary:
  fixes d rd :: rat
  assumes d: "0 \<le> d"
    and rd: "d \<le> rd + d / 2 ^ 53 + 1 / 10 ^ 30"
    and le: "rd \<le> 4835703278458517 / 4835703278458516698824704"
  shows "d \<le> (1 + 1 / 2 ^ 50) * (1 / 10 ^ 9)"
  using assms by simp

text \<open>Two finite doubles whose difference is at most \<open>1 - 2 ^ -50\<close> times
  \<open>max(1e-9, 1e-6 * max(|a|, |b|))\<close> are equal for the checker, and two that are equal
  for the checker differ by at most \<open>1 + 2 ^ -50\<close> times that bound.\<close>

lemma floats_equal_sufficient:
  assumes fv: "finite_value E = Some b" "finite_value A = Some a"
    and range: "\<bar>a\<bar> < 2 ^ 1024" "\<bar>b\<bar> < 2 ^ 1024"
    and le: "\<bar>a - b\<bar> \<le> (1 - 1 / 2 ^ 50) * max (1 / 10 ^ 9) (1 / 10 ^ 6 * max \<bar>a\<bar> \<bar>b\<bar>)"
  shows "floats_equal E A"
proof -
  define d where "d = \<bar>a - b\<bar>"
  define rd where "rd = round_mag d"
  have d: "0 \<le> d" by (simp add: d_def)
  have rd: "rd \<le> d + d / 2 ^ 53 + 1 / 10 ^ 30"
    unfolding rd_def using d by (rule round_mag_bounds)
  have tol: "rd \<le> default_abs_tol" if "d \<le> (1 - 1 / 2 ^ 50) * (1 / 10 ^ 9)"
    unfolding abs_tol_value using d rd that by (rule abs_sufficient)
  have rel: "rd \<le> round_mag (default_rel_tol * \<bar>x\<bar>) \<or> rd \<le> default_abs_tol"
    if x: "d \<le> (1 - 1 / 2 ^ 50) * (1 / 10 ^ 6 * \<bar>x\<bar>)" for x
  proof (cases "1 / 10 ^ 3 \<le> \<bar>x\<bar>")
    case True
    have "0 \<le> default_rel_tol * \<bar>x\<bar>" by (simp add: rel_tol_value)
    then have "default_rel_tol * \<bar>x\<bar> \<le>
        round_mag (default_rel_tol * \<bar>x\<bar>) + default_rel_tol * \<bar>x\<bar> / 2 ^ 53 + 1 / 10 ^ 30"
      by (rule round_mag_bounds)
    then have c: "4722366482869645 / 4722366482869645213696 * \<bar>x\<bar> \<le>
        round_mag (default_rel_tol * \<bar>x\<bar>) +
        4722366482869645 / 4722366482869645213696 * \<bar>x\<bar> / 2 ^ 53 + 1 / 10 ^ 30"
      by (simp only: rel_tol_value)
    have "0 \<le> \<bar>x\<bar>" by simp
    with d have "rd \<le> round_mag (default_rel_tol * \<bar>x\<bar>)"
      using rd c x True by (rule close_sufficient)
    then show ?thesis ..
  next
    case False
    with x have "d \<le> (1 - 1 / 2 ^ 50) * (1 / 10 ^ 9)" by simp
    then have "rd \<le> default_abs_tol" by (rule tol)
    then show ?thesis ..
  qed
  have cases: "rd \<le> round_mag (default_rel_tol * \<bar>a\<bar>) \<or>
      rd \<le> round_mag (default_rel_tol * \<bar>b\<bar>) \<or> rd \<le> default_abs_tol"
  proof (cases "1 / 10 ^ 9 \<le> 1 / 10 ^ 6 * max \<bar>a\<bar> \<bar>b\<bar>")
    case False
    then have "max (1 / 10 ^ 9) (1 / 10 ^ 6 * max \<bar>a\<bar> \<bar>b\<bar>) = 1 / 10 ^ 9"
      by (simp only: max_def if_False)
    with le have "d \<le> (1 - 1 / 2 ^ 50) * (1 / 10 ^ 9)" by (simp only: d_def)
    then show ?thesis using tol by blast
  next
    case True
    then have "max (1 / 10 ^ 9) (1 / 10 ^ 6 * max \<bar>a\<bar> \<bar>b\<bar>) = 1 / 10 ^ 6 * max \<bar>a\<bar> \<bar>b\<bar>"
      by (simp only: max_def if_True)
    with le have dm: "d \<le> (1 - 1 / 2 ^ 50) * (1 / 10 ^ 6 * max \<bar>a\<bar> \<bar>b\<bar>)" by (simp only: d_def)
    show ?thesis
    proof (cases "\<bar>a\<bar> \<le> \<bar>b\<bar>")
      case True
      then have "max \<bar>a\<bar> \<bar>b\<bar> = \<bar>b\<bar>" by (simp only: max_def if_True)
      with dm have "d \<le> (1 - 1 / 2 ^ 50) * (1 / 10 ^ 6 * \<bar>b\<bar>)" by simp
      then show ?thesis using rel by blast
    next
      case False
      then have "max \<bar>a\<bar> \<bar>b\<bar> = \<bar>a\<bar>" by (simp only: max_def if_False)
      with dm have "d \<le> (1 - 1 / 2 ^ 50) * (1 / 10 ^ 6 * \<bar>a\<bar>)" by simp
      then show ?thesis using rel by blast
    qed
  qed
  have fin: "\<not> 2 ^ 1024 \<le> round_mag (default_rel_tol * \<bar>x\<bar>)" if "\<bar>x\<bar> < 2 ^ 1024" for x
  proof (rule round_mag_no_overflow)
    show "0 \<le> default_rel_tol * \<bar>x\<bar>" by (simp add: rel_tol_value)
    have "default_rel_tol * \<bar>x\<bar> \<le> 1 / 2 * \<bar>x\<bar>"
      by (rule mult_right_mono) (simp_all add: rel_tol_value)
    also have "\<dots> \<le> 1 / 2 * 2 ^ 1024" using that by simp
    also have "\<dots> = 2 ^ 1023" by simp
    finally show "default_rel_tol * \<bar>x\<bar> \<le> 2 ^ 1023" .
  qed
  have "default_abs_tol < 2 ^ 1024" by (simp add: abs_tol_value)
  with cases fin [OF range(1)] fin [OF range(2)] have "\<not> 2 ^ 1024 \<le> rd"
    by auto
  with cases show ?thesis
    unfolding isclose_finite [OF fv range] rd_def d_def by blast
qed

lemma floats_equal_necessary:
  assumes fv: "finite_value E = Some b" "finite_value A = Some a"
    and range: "\<bar>a\<bar> < 2 ^ 1024" "\<bar>b\<bar> < 2 ^ 1024"
    and eq: "floats_equal E A"
  shows "\<bar>a - b\<bar> \<le> (1 + 1 / 2 ^ 50) * max (1 / 10 ^ 9) (1 / 10 ^ 6 * max \<bar>a\<bar> \<bar>b\<bar>)"
proof (cases "a = b")
  case True
  have "(0 :: rat) \<le> (1 + 1 / 2 ^ 50) * max (1 / 10 ^ 9) (1 / 10 ^ 6 * max \<bar>a\<bar> \<bar>b\<bar>)"
    by (rule mult_nonneg_nonneg) (simp_all add: le_max_iff_disj)
  with True show ?thesis by simp
next
  case False
  define d where "d = \<bar>a - b\<bar>"
  define rd where "rd = round_mag d"
  define B where "B = max (1 / 10 ^ 9) (1 / 10 ^ 6 * max \<bar>a\<bar> \<bar>b\<bar>)"
  have d: "0 \<le> d" by (simp add: d_def)
  have rd: "d \<le> rd + d / 2 ^ 53 + 1 / 10 ^ 30"
    unfolding rd_def using d by (rule round_mag_bounds)
  have B9: "(1 + 1 / 2 ^ 50) * (1 / 10 ^ 9) \<le> (1 + 1 / 2 ^ 50) * B"
    unfolding B_def by (rule mult_left_mono) simp_all
  have B6: "(1 + 1 / 2 ^ 50) * (1 / 10 ^ 6 * \<bar>x\<bar>) \<le> (1 + 1 / 2 ^ 50) * B"
    if "\<bar>x\<bar> \<le> max \<bar>a\<bar> \<bar>b\<bar>" for x
    unfolding B_def using that by (intro mult_left_mono) (simp_all add: le_max_iff_disj)
  have rel: "d \<le> (1 + 1 / 2 ^ 50) * B"
    if le: "rd \<le> round_mag (default_rel_tol * \<bar>x\<bar>)" and x: "\<bar>x\<bar> \<le> max \<bar>a\<bar> \<bar>b\<bar>" for x
  proof -
    have "0 \<le> default_rel_tol * \<bar>x\<bar>" by (simp add: rel_tol_value)
    then have "round_mag (default_rel_tol * \<bar>x\<bar>) \<le>
        default_rel_tol * \<bar>x\<bar> + default_rel_tol * \<bar>x\<bar> / 2 ^ 53 + 1 / 10 ^ 30"
      by (rule round_mag_bounds)
    then have c: "round_mag (default_rel_tol * \<bar>x\<bar>) \<le>
        4722366482869645 / 4722366482869645213696 * \<bar>x\<bar> +
        4722366482869645 / 4722366482869645213696 * \<bar>x\<bar> / 2 ^ 53 + 1 / 10 ^ 30"
      by (simp only: rel_tol_value)
    have "0 \<le> \<bar>x\<bar>" by simp
    with d have "d \<le> (1 + 1 / 2 ^ 50) * (1 / 10 ^ 9) \<or> d \<le> (1 + 1 / 2 ^ 50) * (1 / 10 ^ 6 * \<bar>x\<bar>)"
      using rd c le by (rule close_necessary)
    with B9 B6 [OF x] show ?thesis by linarith
  qed
  have tol: "d \<le> (1 + 1 / 2 ^ 50) * B" if "rd \<le> default_abs_tol"
  proof -
    from that have "rd \<le> 4835703278458517 / 4835703278458516698824704"
      by (simp only: abs_tol_value)
    with d rd have "d \<le> (1 + 1 / 2 ^ 50) * (1 / 10 ^ 9)" by (rule abs_necessary)
    with B9 show ?thesis by linarith
  qed
  from eq False have "rd \<le> round_mag (default_rel_tol * \<bar>a\<bar>) \<or>
      rd \<le> round_mag (default_rel_tol * \<bar>b\<bar>) \<or> rd \<le> default_abs_tol"
    unfolding isclose_finite [OF fv range] rd_def d_def by blast
  then have "d \<le> (1 + 1 / 2 ^ 50) * B"
    using rel [of a] rel [of b] tol by (auto simp add: le_max_iff_disj)
  then show ?thesis by (simp only: d_def B_def)
qed

text \<open>A value that is not finite is close to itself alone, and \<open>nan\<close> to nothing.\<close>

lemma floats_equal_not_finite:
  "finite_value E = None \<or> finite_value A = None \<Longrightarrow>
     floats_equal E A \<longleftrightarrow> E = A \<and> E \<noteq> NaN"
  by (cases E; cases A) (simp_all add: floats_equal_def isclose_def)

lemma compare_tokens_rejects: "compare_tokens float_str i j zs = Some ret \<Longrightarrow> \<not> fst ret"
  by (induction float_str i j zs rule: compare_tokens.induct) (auto split: if_splits)

lemma compare_tokens_None_iff:
  "compare_tokens float_str i j zs = None \<longleftrightarrow> (\<forall>(e, a) \<in> set zs. floats_equal e a)"
  by (induction float_str i j zs rule: compare_tokens.induct) auto

text \<open>When two lines match for the checker: as lists of floats when both parse as floats
  of equal count, else as text.\<close>

definition lines_match :: "string \<Rightarrow> string \<Rightarrow> bool" where
  "lines_match exp_line act_line =
     (case (parse_floats exp_line, parse_floats act_line) of
        (Some es, Some as) \<Rightarrow>
          if length es = length as then list_all2 floats_equal es as else exp_line = act_line
      | _ \<Rightarrow> exp_line = act_line)"

lemma compare_lines_step:
  "compare_lines float_str i ((exp_line0, act_line0) # rest) =
     (case (parse_floats (strip exp_line0), parse_floats (strip act_line0)) of
        (Some es, Some as) \<Rightarrow>
          if length es = length as then
            (case compare_tokens float_str i 0 (zip es as) of
               Some ret \<Rightarrow> Some ret
             | None \<Rightarrow> compare_lines float_str (i + 1) rest)
          else if strip exp_line0 \<noteq> strip act_line0 then
            Some (False, ''Line '' @ str_nat (i + 1) @ '': expected '' @ [CHR 0x27] @
                         strip exp_line0 @ [CHR 0x27] @ '', got '' @ [CHR 0x27] @
                         strip act_line0 @ [CHR 0x27])
          else compare_lines float_str (i + 1) rest
      | _ \<Rightarrow>
          if strip exp_line0 \<noteq> strip act_line0 then
            Some (False, ''Line '' @ str_nat (i + 1) @ '': expected '' @ [CHR 0x27] @
                         strip exp_line0 @ [CHR 0x27] @ '', got '' @ [CHR 0x27] @
                         strip act_line0 @ [CHR 0x27])
          else compare_lines float_str (i + 1) rest)"
proof (cases "parse_floats (strip exp_line0)")
  case None
  then show ?thesis by (simp add: Let_def)
next
  case es: (Some es)
  show ?thesis
  proof (cases "parse_floats (strip act_line0)")
    case None
    with es show ?thesis by (simp add: Let_def)
  next
    case (Some as)
    with es show ?thesis by (simp add: Let_def)
  qed
qed

lemma compare_lines_step_None:
  "compare_lines float_str i ((exp_line0, act_line0) # rest) = None \<longleftrightarrow>
     lines_match (strip exp_line0) (strip act_line0) \<and>
     compare_lines float_str (i + 1) rest = None"
proof (cases "parse_floats (strip exp_line0)")
  case None
  then show ?thesis by (simp add: compare_lines_step lines_match_def del: compare_lines.simps)
next
  case es: (Some es)
  show ?thesis
  proof (cases "parse_floats (strip act_line0)")
    case None
    with es show ?thesis by (simp add: compare_lines_step lines_match_def del: compare_lines.simps)
  next
    case (Some as)
    show ?thesis
    proof (cases "length es = length as")
      case True
      then have "list_all2 floats_equal es as \<longleftrightarrow> compare_tokens float_str i 0 (zip es as) = None"
        by (simp add: compare_tokens_None_iff list_all2_iff)
      with True es Some show ?thesis
        by (simp add: compare_lines_step lines_match_def del: compare_lines.simps
              split: option.splits)
    next
      case False
      with es Some show ?thesis
        by (simp add: compare_lines_step lines_match_def del: compare_lines.simps)
    qed
  qed
qed

lemma compare_lines_rejects: "compare_lines float_str i zs = Some ret \<Longrightarrow> \<not> fst ret"
proof (induction zs arbitrary: i)
  case Nil
  then show ?case by simp
next
  case (Cons z zs)
  obtain exp_line0 act_line0 where z: "z = (exp_line0, act_line0)" by (cases z)
  from Cons.prems show ?case
    unfolding z compare_lines_step
    by (auto split: option.splits if_splits dest: compare_tokens_rejects Cons.IH)
qed

lemma compare_lines_None_iff:
  "compare_lines float_str i zs = None \<longleftrightarrow>
     (\<forall>(exp_line, act_line) \<in> set zs. lines_match (strip exp_line) (strip act_line))"
proof (induction zs arbitrary: i)
  case Nil
  then show ?case by simp
next
  case (Cons z zs)
  obtain exp_line0 act_line0 where z: "z = (exp_line0, act_line0)" by (cases z)
  show ?case
    unfolding z compare_lines_step_None Cons.IH by simp
qed

text \<open>\<^verbatim>\<open>default_checker\<close> accepts exactly when the two outputs have the same number of
  lines and corresponding lines match.\<close>

lemma default_checker_accepts_iff:
  "(\<exists>msg. default_checker float_str pid input_data expected (PyStr actual) = Inr (True, msg)) \<longleftrightarrow>
     length (split_on LF (strip expected)) = length (split_on LF (strip actual)) \<and>
     (\<forall>(exp_line, act_line) \<in> set (zip (split_on LF (strip expected)) (split_on LF (strip actual))).
        lines_match (strip exp_line) (strip act_line))"
proof (cases "compare_lines float_str 0
                (zip (split_on LF (strip expected)) (split_on LF (strip actual)))")
  case None
  then have "\<forall>(exp_line, act_line) \<in> set (zip (split_on LF (strip expected)) (split_on LF (strip actual))).
        lines_match (strip exp_line) (strip act_line)"
    by (simp only: compare_lines_None_iff)
  with None show ?thesis
    by (simp add: default_checker_def Let_def)
next
  case (Some ret)
  then have "\<not> fst ret" by (rule compare_lines_rejects)
  then have no: "ret \<noteq> (True, msg)" for msg by auto
  have "(\<forall>(exp_line, act_line) \<in> set (zip (split_on LF (strip expected)) (split_on LF (strip actual))).
        lines_match (strip exp_line) (strip act_line)) \<longleftrightarrow>
        compare_lines float_str 0
          (zip (split_on LF (strip expected)) (split_on LF (strip actual))) = None"
    by (rule compare_lines_None_iff [symmetric])
  with Some have "\<not> (\<forall>(exp_line, act_line) \<in> set (zip (split_on LF (strip expected)) (split_on LF (strip actual))).
        lines_match (strip exp_line) (strip act_line))"
    by simp
  with Some no show ?thesis
    by (simp add: default_checker_def Let_def)
qed

text \<open>A finite float that \<open>float\<close> returns is a double: its magnitude is below
  \<open>2 ^ 1024\<close>.\<close>

lemma round_double_range: "finite_value (round_double x) = Some v \<Longrightarrow> \<bar>v\<bar> < 2 ^ 1024"
proof -
  assume v: "finite_value (round_double x) = Some v"
  have "0 \<le> round_mag \<bar>x\<bar>" by (simp add: round_mag_nonneg)
  with v show ?thesis
    by (auto simp add: round_double_def double_limit_def Let_def split: if_splits)
qed

lemma negate_value:
  "finite_value (negate f) = Some v \<Longrightarrow> \<exists>w. finite_value f = Some w \<and> \<bar>w\<bar> = \<bar>v\<bar>"
  by (cases f) (auto split: if_splits)

lemma unsigned_float_range:
  "unsigned_float s = Some f \<Longrightarrow> finite_value f = Some v \<Longrightarrow> \<bar>v\<bar> < 2 ^ 1024"
  by (auto simp add: unsigned_float_def split: if_splits dest: round_double_range)

lemma py_float_range:
  assumes "py_float s = Some f" and "finite_value f = Some v"
  shows "\<bar>v\<bar> < 2 ^ 1024"
proof (cases "strip s")
  case Nil
  with assms show ?thesis by (simp add: py_float_def)
next
  case (Cons c r)
  show ?thesis
  proof (cases "c = CHR ''-''")
    case True
    with Cons assms(1) obtain g where g: "unsigned_float r = Some g" and f: "f = negate g"
      by (auto simp add: py_float_def)
    from assms(2) f obtain w where w: "finite_value g = Some w" and eq: "\<bar>w\<bar> = \<bar>v\<bar>"
      using negate_value [of g v] by auto
    from g w have "\<bar>w\<bar> < 2 ^ 1024" by (rule unsigned_float_range)
    with eq show ?thesis by simp
  next
    case False
    with Cons assms(1) have "unsigned_float r = Some f \<or> unsigned_float (c # r) = Some f"
      by (auto simp add: py_float_def split: if_splits)
    with assms(2) show ?thesis using unsigned_float_range by blast
  qed
qed

text \<open>The examples of the specification, and a pair of outputs that the checker accepts
  although their difference exceeds \<open>1e-6\<close> times the expected value.\<close>

definition ex_default_expected :: string where
  "ex_default_expected = ''1.0'' @ [LF] @ ''2.0''"

definition ex_default_close :: string where
  "ex_default_close = ''1.0000001'' @ [LF] @ ''2.0''"

definition ex_default_far :: string where
  "ex_default_far = ''1.1'' @ [LF] @ ''2.0''"

lemma ex_default_lines:
  "split_on LF (strip ex_default_expected) = [''1.0'', ''2.0'']"
  "split_on LF (strip ex_default_close) = [''1.0000001'', ''2.0'']"
  "split_on LF (strip ex_default_far) = [''1.1'', ''2.0'']"
  "split_on LF (strip ''1000000'') = [''1000000'']"
  "split_on LF (strip ''1000001.0000005'') = [''1000001.0000005'']"
  by code_simp+

lemma ex_py_float:
  "py_float ''1000000'' = Some (Finite 1000000)"
  "py_float ''1000001.0000005'' = Some (Finite (8589943181938887 / 8589934592))"
  by code_simp+

lemma ex_default_floats:
  "parse_floats (strip ''1.0'') = Some [Finite 1]"
  "parse_floats (strip ''2.0'') = Some [Finite 2]"
  "parse_floats (strip ''1.0000001'') = Some [Finite (4503600077730459 / 4503599627370496)]"
  "parse_floats (strip ''1.1'') = Some [Finite (2476979795053773 / 2251799813685248)]"
  "parse_floats (strip ''1000000'') = Some [Finite 1000000]"
  "parse_floats (strip ''1000001.0000005'') = Some [Finite (8589943181938887 / 8589934592)]"
  by code_simp+

lemma ex_floats_equal:
  "floats_equal (Finite 1) (Finite (4503600077730459 / 4503599627370496))"
  "floats_equal (Finite 2) (Finite 2)"
  "\<not> floats_equal (Finite 1) (Finite (2476979795053773 / 2251799813685248))"
  "floats_equal (Finite 1000000) (Finite (8589943181938887 / 8589934592))"
proof -
  show "floats_equal (Finite 1) (Finite (4503600077730459 / 4503599627370496))"
    by (rule floats_equal_sufficient [where b = 1 and a = "4503600077730459 / 4503599627370496"])
       simp_all
  show "floats_equal (Finite 2) (Finite 2)"
    by (simp add: floats_equal_def isclose_def)
  show "\<not> floats_equal (Finite 1) (Finite (2476979795053773 / 2251799813685248))"
  proof
    assume "floats_equal (Finite 1) (Finite (2476979795053773 / 2251799813685248))"
    then have "\<bar>2476979795053773 / 2251799813685248 - 1 :: rat\<bar> \<le>
        (1 + 1 / 2 ^ 50) *
        max (1 / 10 ^ 9) (1 / 10 ^ 6 * max \<bar>2476979795053773 / 2251799813685248\<bar> \<bar>1\<bar>)"
      by (rule floats_equal_necessary [rotated -1]) simp_all
    then show False by simp
  qed
  show "floats_equal (Finite 1000000) (Finite (8589943181938887 / 8589934592))"
    by (rule floats_equal_sufficient [where b = 1000000 and a = "8589943181938887 / 8589934592"])
       simp_all
qed

lemma str_nat_one: "str_nat (Suc 0) = ''1''"
  by code_simp

lemma ex_default_accepted:
  "default_checker float_str pid input_data ex_default_expected (PyStr ex_default_close) =
     Inr (True, ''OK'')"
  by (simp add: default_checker_def Let_def ex_default_lines ex_default_floats ex_floats_equal)

lemma ex_default_rejected:
  "default_checker float_str pid input_data ex_default_expected (PyStr ex_default_far) =
     Inr (False, ''Line 1, token 1: expected '' @ float_str (Finite 1) @ '', got '' @
                 float_str (Finite (2476979795053773 / 2251799813685248)))"
  by (simp add: default_checker_def Let_def ex_default_lines ex_default_floats ex_floats_equal
        str_nat_one)

lemma ex_default_larger_actual:
  "default_checker float_str pid input_data ''1000000'' (PyStr ''1000001.0000005'') =
     Inr (True, ''OK'')"
  by (simp add: default_checker_def Let_def ex_default_lines ex_default_floats ex_floats_equal)

text \<open>
  Claim C4, as the code has it.  In \<^verbatim>\<open>default_checker\<close>, a pair of lines that both parse
  as floats of equal count passes exactly when every pair of tokens does.  Two finite
  tokens with the double values \<open>b\<close> (expected) and \<open>a\<close> (actual) pass when
  \<open>|a - b| \<le> (1 - 2 ^ -50) * max(1e-9, 1e-6 * max(|a|, |b|))\<close> and pass only when
  \<open>|a - b| \<le> (1 + 2 ^ -50) * max(1e-9, 1e-6 * max(|a|, |b|))\<close>: the relative tolerance of
  \<open>math.isclose\<close> is taken of the larger of the two magnitudes, and between the two bounds
  the rounding of its double arithmetic decides: the pair passes exactly when \<open>a = b\<close> or
  the double of \<open>|a - b|\<close> is at most the double of \<open>1e-6 * |a|\<close>, the double of
  \<open>1e-6 * |b|\<close> or the double of \<open>1e-9\<close>.  A token that is an infinity passes
  only against the same infinity, and \<open>nan\<close> never passes.  The expected output \<open>1.0\<close>,
  \<open>2.0\<close> with the actual output \<open>1.0000001\<close>, \<open>2.0\<close> passes; with the actual output
  \<open>1.1\<close>, \<open>2.0\<close> it fails, and the message names line 1, token 1.
\<close>

theorem default_checker_tolerance:
  "(py_float s = Some E \<and> py_float t = Some A \<and>
    finite_value E = Some b \<and> finite_value A = Some a \<longrightarrow>
      (\<bar>a - b\<bar> \<le> (1 - 1 / 2 ^ 50) * max (1 / 10 ^ 9) (1 / 10 ^ 6 * max \<bar>a\<bar> \<bar>b\<bar>) \<longrightarrow>
         floats_equal E A) \<and>
      (floats_equal E A \<longrightarrow>
         \<bar>a - b\<bar> \<le> (1 + 1 / 2 ^ 50) * max (1 / 10 ^ 9) (1 / 10 ^ 6 * max \<bar>a\<bar> \<bar>b\<bar>)) \<and>
      (floats_equal E A \<longleftrightarrow>
         a = b \<or>
         (\<not> 2 ^ 1024 \<le> round_mag \<bar>a - b\<bar> \<and>
          (round_mag \<bar>a - b\<bar> \<le> round_mag (default_rel_tol * \<bar>a\<bar>) \<or>
           round_mag \<bar>a - b\<bar> \<le> round_mag (default_rel_tol * \<bar>b\<bar>) \<or>
           round_mag \<bar>a - b\<bar> \<le> default_abs_tol)))) \<and>
   (finite_value E' = None \<or> finite_value A' = None \<longrightarrow>
      (floats_equal E' A' \<longleftrightarrow> E' = A' \<and> E' \<noteq> NaN)) \<and>
   (parse_floats (strip exp_line) = Some es \<and> parse_floats (strip act_line) = Some as \<and>
    length es = length as \<longrightarrow>
      (compare_lines float_str i [(exp_line, act_line)] = None \<longleftrightarrow>
         (\<forall>(e, a) \<in> set (zip es as). floats_equal e a))) \<and>
   default_checker float_str pid input_data ex_default_expected (PyStr ex_default_close) =
     Inr (True, ''OK'') \<and>
   default_checker float_str pid input_data ex_default_expected (PyStr ex_default_far) =
     Inr (False, ''Line 1, token 1: expected '' @ float_str (Finite 1) @ '', got '' @
                 float_str (Finite (2476979795053773 / 2251799813685248)))"
proof (intro conjI impI)
  assume tokens: "py_float s = Some E \<and> py_float t = Some A \<and>
    finite_value E = Some b \<and> finite_value A = Some a"
  then have fv: "finite_value E = Some b" "finite_value A = Some a" by simp_all
  from tokens have range: "\<bar>a\<bar> < 2 ^ 1024" "\<bar>b\<bar> < 2 ^ 1024"
    using py_float_range by blast+
  {
    assume "\<bar>a - b\<bar> \<le> (1 - 1 / 2 ^ 50) * max (1 / 10 ^ 9) (1 / 10 ^ 6 * max \<bar>a\<bar> \<bar>b\<bar>)"
    with fv range show "floats_equal E A" by (rule floats_equal_sufficient)
  next
    assume "floats_equal E A"
    with fv range
    show "\<bar>a - b\<bar> \<le> (1 + 1 / 2 ^ 50) * max (1 / 10 ^ 9) (1 / 10 ^ 6 * max \<bar>a\<bar> \<bar>b\<bar>)"
      by (rule floats_equal_necessary)
  next
    from fv range
    show "floats_equal E A \<longleftrightarrow>
         a = b \<or>
         (\<not> 2 ^ 1024 \<le> round_mag \<bar>a - b\<bar> \<and>
          (round_mag \<bar>a - b\<bar> \<le> round_mag (default_rel_tol * \<bar>a\<bar>) \<or>
           round_mag \<bar>a - b\<bar> \<le> round_mag (default_rel_tol * \<bar>b\<bar>) \<or>
           round_mag \<bar>a - b\<bar> \<le> default_abs_tol))"
      by (rule isclose_finite)
  }
next
  assume "finite_value E' = None \<or> finite_value A' = None"
  then show "floats_equal E' A' \<longleftrightarrow> E' = A' \<and> E' \<noteq> NaN"
    by (rule floats_equal_not_finite)
next
  assume parsed: "parse_floats (strip exp_line) = Some es \<and>
    parse_floats (strip act_line) = Some as \<and> length es = length as"
  then have "lines_match (strip exp_line) (strip act_line) \<longleftrightarrow>
      (\<forall>(e, a) \<in> set (zip es as). floats_equal e a)"
    by (simp add: lines_match_def list_all2_iff)
  then show "compare_lines float_str i [(exp_line, act_line)] = None \<longleftrightarrow>
         (\<forall>(e, a) \<in> set (zip es as). floats_equal e a)"
    by (simp only: compare_lines_None_iff) simp
next
  show "default_checker float_str pid input_data ex_default_expected (PyStr ex_default_close) =
     Inr (True, ''OK'')"
    by (rule ex_default_accepted)
next
  show "default_checker float_str pid input_data ex_default_expected (PyStr ex_default_far) =
     Inr (False, ''Line 1, token 1: expected '' @ float_str (Finite 1) @ '', got '' @
                 float_str (Finite (2476979795053773 / 2251799813685248)))"
    by (rule ex_default_rejected)
qed

text \<open>A stand-in for the text of a float, for closed examples.\<close>

definition no_float_str :: "pyfloat \<Rightarrow> string" where
  "no_float_str x = []"

theorem default_checker_tolerance_witness:
  "py_float ''1000000'' = Some (Finite 1000000) \<and>
   py_float ''1000001.0000005'' = Some (Finite (8589943181938887 / 8589934592)) \<and>
   floats_equal (Finite 1000000) (Finite (8589943181938887 / 8589934592)) \<and>
   \<bar>8589943181938887 / 8589934592 - 1000000 :: rat\<bar> \<le>
     (1 + 1 / 2 ^ 50) * max (1 / 10 ^ 9) (1 / 10 ^ 6 * max \<bar>8589943181938887 / 8589934592\<bar> \<bar>1000000\<bar>) \<and>
   floats_equal PosInf PosInf \<and>
   compare_lines no_float_str 0 [(''1000000'', ''1000001.0000005'')] = None"
proof -
  have close: "\<bar>8589943181938887 / 8589934592 - 1000000 :: rat\<bar> \<le>
     (1 - 1 / 2 ^ 50) * max (1 / 10 ^ 9) (1 / 10 ^ 6 * max \<bar>8589943181938887 / 8589934592\<bar> \<bar>1000000\<bar>)"
    by simp
  note claim = default_checker_tolerance [where s = "''1000000''" and E = "Finite 1000000"
      and t = "''1000001.0000005''" and A = "Finite (8589943181938887 / 8589934592)"
      and b = 1000000 and a = "8589943181938887 / 8589934592"
      and E' = PosInf and A' = PosInf
      and exp_line = "''1000000''" and es = "[Finite 1000000]"
      and act_line = "''1000001.0000005''" and as = "[Finite (8589943181938887 / 8589934592)]"
      and float_str = no_float_str and i = 0 and pid = "''p''" and input_data = "[]"]
  have eq: "floats_equal (Finite 1000000) (Finite (8589943181938887 / 8589934592))"
    using claim [THEN conjunct1] ex_py_float close by simp
  have bound: "\<bar>8589943181938887 / 8589934592 - 1000000 :: rat\<bar> \<le>
     (1 + 1 / 2 ^ 50) * max (1 / 10 ^ 9) (1 / 10 ^ 6 * max \<bar>8589943181938887 / 8589934592\<bar> \<bar>1000000\<bar>)"
    using claim [THEN conjunct1] ex_py_float eq by simp
  have inf: "floats_equal PosInf PosInf"
    using claim [THEN conjunct2, THEN conjunct1] by simp
  have line: "compare_lines no_float_str 0 [(''1000000'', ''1000001.0000005'')] = None"
    using claim [THEN conjunct2, THEN conjunct2, THEN conjunct1] eq
    by (simp add: ex_default_floats)
  show ?thesis
    using ex_py_float eq bound inf line by blast
qed

text \<open>
  The claim as the specification states it takes the relative tolerance of the expected
  value alone.  With the expected output \<open>1000000\<close> and the actual output
  \<open>1000001.0000005\<close> both lines parse as one float, the difference of the two doubles
  exceeds \<open>max(1e-9, 1e-6 * 1000000) = 1\<close>, and the checker accepts.
\<close>

theorem default_checker_tolerance_counterexample:
  "parse_floats (strip ''1000000'') = Some [Finite 1000000] \<and>
   parse_floats (strip ''1000001.0000005'') = Some [Finite (8589943181938887 / 8589934592)] \<and>
   default_checker no_float_str ''default'' [] ''1000000'' (PyStr ''1000001.0000005'') =
     Inr (True, ''OK'') \<and>
   \<not> \<bar>8589943181938887 / 8589934592 - 1000000\<bar> \<le> max (1 / 10 ^ 9) (1 / 10 ^ 6 * \<bar>1000000 :: rat\<bar>)"
  by (simp add: ex_default_floats ex_default_larger_actual)

section \<open>The grading server\<close>

subsection \<open>The checker registry\<close>

text \<open>
  \<^verbatim>\<open>get_checker\<close>: the checker registered for the problem id, else the default checker.
  The three registered checkers catch every exception themselves.
\<close>

type_synonym checker = "string \<Rightarrow> string \<Rightarrow> string \<Rightarrow> pyval \<Rightarrow> pyexn + bool \<times> string"

definition get_checker :: "(pyfloat \<Rightarrow> string) \<Rightarrow> string \<Rightarrow> checker" where
  "get_checker float_str pid =
     (if pid = ''pastele'' then (\<lambda>p i e a. Inr (checker_pastele p i e a))
      else if pid = ''rez'' then (\<lambda>p i e a. Inr (checker_rez p i e a))
      else if pid = ''kolekcija'' then (\<lambda>p i e a. Inr (checker_kolekcija p i e a))
      else default_checker float_str)"

subsection \<open>The text of a value\<close>

text \<open>
  \<open>str(v)\<close>, as an f-string formats a value of the request: a string is itself, any
  other value is its \<open>repr\<close> (strings inside lists and dicts in quotes).
\<close>

fun join_with :: "string \<Rightarrow> string list \<Rightarrow> string" where
  "join_with sep [] = []"
| "join_with sep [x] = x"
| "join_with sep (x # xs) = x @ sep @ join_with sep xs"

fun repr_val :: "(pyfloat \<Rightarrow> string) \<Rightarrow> pyval \<Rightarrow> string" where
  "repr_val float_str PyNone = ''None''"
| "repr_val float_str (PyBool b) = (if b then ''True'' else ''False'')"
| "repr_val float_str (PyInt i) = str_int i"
| "repr_val float_str (PyFloat x) = float_str (Finite x)"
| "repr_val float_str (PyStr s) = py_repr s"
| "repr_val float_str (PyList vs) = ''['' @ join_with '', '' (map (repr_val float_str) vs) @ '']''"
| "repr_val float_str (PyDict kvs) =
     ''{'' @ join_with '', '' (map (\<lambda>kv. py_repr (fst kv) @ '': '' @ repr_val float_str (snd kv)) kvs) @
     ''}''"

definition str_val :: "(pyfloat \<Rightarrow> string) \<Rightarrow> pyval \<Rightarrow> string" where
  "str_val float_str v = (case v of PyStr s \<Rightarrow> s | _ \<Rightarrow> repr_val float_str v)"

subsection \<open>\<^verbatim>\<open>grade\<close>\<close>

text \<open>
  The server's surroundings: the directory \<^verbatim>\<open>GRADING_DIR\<close> and the files below it.  A
  path that exists is a file whose text can be read, or something whose reading raises.
\<close>

datatype stored = Readable string | Unreadable pyexn

record server =
  grading_dir :: string
  files :: "string \<Rightarrow> stored option"

definition read_text :: "server \<Rightarrow> string \<Rightarrow> pyexn + string" where
  "read_text srv path =
     (case files srv path of
        Some (Readable text) \<Rightarrow> Inr text
      | Some (Unreadable e) \<Rightarrow> Inl e
      | None \<Rightarrow> Inl (PyExn OtherException (''No such file or directory: '' @ py_repr path)))"

definition inputs_dir :: "server \<Rightarrow> string" where
  "inputs_dir srv = path_join (grading_dir srv) ''inputs''"

definition outputs_dir :: "server \<Rightarrow> string" where
  "outputs_dir srv = path_join (grading_dir srv) ''outputs''"

text \<open>The JSON body and the status code of a response.\<close>

record response =
  code :: int
  verdict :: string
  passed :: bool
  message :: string

text \<open>\<open>INPUTS_DIR / problem_id\<close>: only a string can be joined to a path.\<close>

definition path_part :: "pyval \<Rightarrow> pyexn + string" where
  "path_part v =
     (case v of
        PyStr s \<Rightarrow> Inr s
      | _ \<Rightarrow> Inl (PyExn TypeError
               (''unsupported operand type(s) for /: '' @ py_repr ''PosixPath'' @ '' and '' @
                py_repr (py_type_name v))))"

text \<open>
  The statements of \<^verbatim>\<open>grade\<close> before the checker runs.  The request's body is what
  \<open>request.get_json()\<close> does: it raises or returns the decoded value.  The result is an
  exception for the outer \<open>except\<close>, a response returned early, or the four arguments
  the checker is called with.
\<close>

definition grade_request ::
  "(pyfloat \<Rightarrow> string) \<Rightarrow> server \<Rightarrow> pyexn + pyval \<Rightarrow>
     pyexn + (response + string \<times> string \<times> string \<times> pyval)" where
  "grade_request float_str srv body =
     then_do body (\<lambda>data.
     if \<not> truthy data then
       Inr (Inl \<lparr>code = 400, verdict = ''WA'', passed = False,
                 message = ''No JSON body provided''\<rparr>)
     else
       then_do (py_get data ''problem_id'' PyNone) (\<lambda>problem_id.
       then_do (py_get data ''test_id'' PyNone) (\<lambda>test_id.
       then_do (py_get data ''actual_output'' (PyStr [])) (\<lambda>actual_output.
       if \<not> truthy problem_id then
         Inr (Inl \<lparr>code = 400, verdict = ''WA'', passed = False,
                   message = ''Missing problem_id''\<rparr>)
       else if \<not> truthy test_id then
         Inr (Inl \<lparr>code = 400, verdict = ''WA'', passed = False,
                   message = ''Missing test_id''\<rparr>)
       else
         then_do (path_part problem_id) (\<lambda>pid.
         let file_name = str_val float_str test_id @ ''.txt'';
             input_file = path_join (path_join (inputs_dir srv) pid) file_name;
             output_file = path_join (path_join (outputs_dir srv) pid) file_name
         in
         if files srv input_file = None then
           Inr (Inl \<lparr>code = 404, verdict = ''WA'', passed = False,
                     message = ''Test case '' @ [CHR 0x27] @ str_val float_str test_id @
                       [CHR 0x27] @ '' not found for problem '' @ [CHR 0x27] @ pid @ [CHR 0x27]\<rparr>)
         else if files srv output_file = None then
           Inr (Inl \<lparr>code = 404, verdict = ''WA'', passed = False,
                     message = ''Expected output not found for test '' @ [CHR 0x27] @
                       str_val float_str test_id @ [CHR 0x27]\<rparr>)
         else
           (case then_do (read_text srv input_file) (\<lambda>input_data.
                 then_do (read_text srv output_file) (\<lambda>expected_output.
                 Inr (input_data, expected_output))) of
              Inl e \<Rightarrow>
                Inr (Inl \<lparr>code = 500, verdict = ''WA'', passed = False,
                          message = ''Internal error reading test data''\<rparr>)
            | Inr (input_data, expected_output) \<Rightarrow>
                Inr (Inr (pid, input_data, expected_output, actual_output))))))))"

text \<open>The response to what the checker does: its verdict, or the checker error when it
  raises.\<close>

definition checker_response :: "pyexn + bool \<times> string \<Rightarrow> response" where
  "checker_response outcome =
     (case outcome of
        Inl e \<Rightarrow>
          \<lparr>code = 200, verdict = ''WA'', passed = False,
           message = ''Checker error: '' @ exn_str e\<rparr>
      | Inr (p, m) \<Rightarrow>
          \<lparr>code = 200, verdict = (if p then ''AC'' else ''WA''), passed = p, message = m\<rparr>)"

definition grade :: "(pyfloat \<Rightarrow> string) \<Rightarrow> server \<Rightarrow> pyexn + pyval \<Rightarrow> response" where
  "grade float_str srv body =
     (case grade_request float_str srv body of
        Inl e \<Rightarrow>
          \<lparr>code = 500, verdict = ''WA'', passed = False, message = ''Internal server error''\<rparr>
      | Inr (Inl early) \<Rightarrow> early
      | Inr (Inr (pid, input_data, expected_output, actual_output)) \<Rightarrow>
          checker_response
            (get_checker float_str pid pid input_data expected_output actual_output))"

subsection \<open>Facts about \<^verbatim>\<open>grade\<close>\<close>

text \<open>\<^verbatim>\<open>default_checker\<close> raises exactly when the actual output is no string: the
  \<open>AttributeError\<close> of \<open>actual.strip()\<close>.\<close>

lemma default_checker_Inr:
  "\<exists>ret. default_checker float_str pid input_data expected (PyStr s) = Inr ret"
  by (auto simp add: default_checker_def Let_def split: option.splits)

lemma default_checker_Inl_iff:
  "default_checker float_str pid input_data expected actual = Inl e \<longleftrightarrow>
     (\<forall>s. actual \<noteq> PyStr s) \<and> strip_val actual = Inl e"
proof (cases "\<exists>s. actual = PyStr s")
  case True
  then obtain s where s: "actual = PyStr s" by blast
  obtain ret where "default_checker float_str pid input_data expected (PyStr s) = Inr ret"
    using default_checker_Inr by blast
  with s show ?thesis by simp
next
  case False
  then obtain x where "strip_val actual = Inl x"
    by (cases actual) simp_all
  with False show ?thesis
    by (simp add: default_checker_def Let_def)
qed

lemma strip_val_Inl:
  "strip_val actual = Inl e \<Longrightarrow>
     exn_str e = [CHR 0x27] @ py_type_name actual @ [CHR 0x27] @ '' object has no attribute '' @
                 [CHR 0x27] @ ''strip'' @ [CHR 0x27]"
  by (cases actual) auto

text \<open>Only the default checker raises: the registered checkers catch every exception.\<close>

lemma get_checker_Inl_iff:
  "get_checker float_str pid p input_data expected actual = Inl e \<longleftrightarrow>
     pid \<noteq> ''pastele'' \<and> pid \<noteq> ''rez'' \<and> pid \<noteq> ''kolekcija'' \<and>
     (\<forall>s. actual \<noteq> PyStr s) \<and> strip_val actual = Inl e"
  by (simp add: get_checker_def default_checker_Inl_iff)

definition ex_server :: server where
  "ex_server =
     \<lparr>grading_dir = ''/grading'',
      files = (\<lambda>path.
        if path = ''/grading/inputs/sum/1.txt'' then Some (Readable (''1 41'' @ [LF]))
        else if path = ''/grading/outputs/sum/1.txt'' then Some (Readable (''42 '' @ [LF]))
        else None)\<rparr>"

definition ex_request :: "pyval \<Rightarrow> pyexn + pyval" where
  "ex_request actual_output =
     Inr (PyDict [(''problem_id'', PyStr ''sum''), (''test_id'', PyStr ''1''),
                  (''actual_output'', actual_output)])"

lemma ex_grade_request:
  "grade_request no_float_str ex_server (ex_request actual_output) =
     Inr (Inr (''sum'', ''1 41'' @ [LF], ''42 '' @ [LF], actual_output))"
  by (simp add: grade_request_def ex_server_def ex_request_def path_part_def str_val_def
      inputs_dir_def outputs_dir_def path_join_def read_text_def Let_def)

lemma ex_get_checker_raises:
  "get_checker no_float_str ''sum'' ''sum'' (''1 41'' @ [LF]) (''42 '' @ [LF]) PyNone =
     Inl (PyExn AttributeError
       ([CHR 0x27] @ ''NoneType'' @ [CHR 0x27] @ '' object has no attribute '' @
        [CHR 0x27] @ ''strip'' @ [CHR 0x27]))"
  by (simp add: get_checker_def default_checker_def Let_def)

text \<open>
  Claim C2.  When the selected checker raises, \<^verbatim>\<open>grade\<close> answers with status 200, the
  verdict \<open>WA\<close>, \<open>passed\<close> false and the message \<open>Checker error: \<close> followed by the
  exception's text: the exception does not reach the outer handler and is not reported
  as success.  Only the default checker raises, and only on an actual output that is no
  string; the text is then that of the \<open>AttributeError\<close>, which names the type of the
  actual output and nothing of the test's files.
\<close>

theorem grade_checker_error:
  assumes "grade_request float_str srv body =
             Inr (Inr (pid, input_data, expected_output, actual_output))"
    and "get_checker float_str pid pid input_data expected_output actual_output = Inl e"
  shows "grade float_str srv body =
           \<lparr>code = 200, verdict = ''WA'', passed = False,
            message = ''Checker error: '' @ exn_str e\<rparr> \<and>
         pid \<notin> {''pastele'', ''rez'', ''kolekcija''} \<and>
         (\<forall>s. actual_output \<noteq> PyStr s) \<and>
         exn_str e = [CHR 0x27] @ py_type_name actual_output @ [CHR 0x27] @
                     '' object has no attribute '' @ [CHR 0x27] @ ''strip'' @ [CHR 0x27]"
proof -
  have "grade float_str srv body =
          \<lparr>code = 200, verdict = ''WA'', passed = False,
           message = ''Checker error: '' @ exn_str e\<rparr>"
    using assms by (simp add: grade_def checker_response_def)
  moreover have "pid \<noteq> ''pastele'' \<and> pid \<noteq> ''rez'' \<and> pid \<noteq> ''kolekcija'' \<and>
      (\<forall>s. actual_output \<noteq> PyStr s) \<and> strip_val actual_output = Inl e"
    using assms(2) get_checker_Inl_iff [of float_str pid pid input_data expected_output actual_output e]
    by blast
  ultimately show ?thesis
    using strip_val_Inl [of actual_output e] by simp
qed

theorem grade_checker_error_witness:
  "grade no_float_str ex_server (ex_request PyNone) =
     \<lparr>code = 200, verdict = ''WA'', passed = False,
      message = ''Checker error: '' @ [CHR 0x27] @ ''NoneType'' @ [CHR 0x27] @
                '' object has no attribute '' @ [CHR 0x27] @ ''strip'' @ [CHR 0x27]\<rparr>"
  using grade_checker_error [OF ex_grade_request ex_get_checker_raises]
  by simp

subsection \<open>Normalisation and the lines a checker reads\<close>

text \<open>
  Every checker reads the expected output as \<open>expected.strip().split("\n")\<close> and strips
  each line it uses.  The lines so read are the stripped lines of the text without the
  empty ones at the front and at the back.
\<close>

definition trim_front :: "string list \<Rightarrow> string list" where
  "trim_front ls = (let t = dropWhile (\<lambda>l. l = []) ls in if t = [] then [[]] else t)"

definition trim_back :: "string list \<Rightarrow> string list" where
  "trim_back ls = rev (trim_front (rev ls))"

lemma lstrip_Nil [simp]: "lstrip [] = []"
  by (simp add: lstrip_def)

lemma strip_Nil [simp]: "strip [] = []"
  by (simp add: strip_def)

lemma rstrip_Cons:
  "rstrip (c # l) = (if rstrip l = [] \<and> py_isspace c then [] else c # rstrip l)"
proof -
  have "dropWhile py_isspace (rev l @ [c]) =
          (if dropWhile py_isspace (rev l) = [] then dropWhile py_isspace [c]
           else dropWhile py_isspace (rev l) @ [c])"
    by (auto simp add: dropWhile_append dropWhile_eq_Nil_conv)
  then show ?thesis by (simp add: rstrip_def)
qed

lemma rstrip_eq_Nil_iff: "rstrip l = [] \<longleftrightarrow> (\<forall>c \<in> set l. py_isspace c)"
  by (simp add: rstrip_def dropWhile_eq_Nil_conv)

lemma strip_eq_Nil_iff: "strip l = [] \<longleftrightarrow> rstrip l = []"
proof
  assume "rstrip l = []"
  then show "strip l = []" by (simp add: strip_def)
next
  assume a: "strip l = []"
  show "rstrip l = []"
  proof (rule ccontr)
    assume ne: "rstrip l \<noteq> []"
    from a have all: "\<forall>c \<in> set (rstrip l). py_isspace c"
      by (simp add: strip_def lstrip_def dropWhile_eq_Nil_conv)
    with ne have "py_isspace (last (rstrip l))" by simp
    moreover have "\<not> py_isspace (last (rstrip l))"
      using ne by (simp add: rstrip_def last_rev hd_dropWhile)
    ultimately show False by simp
  qed
qed

lemma strip_rstrip [simp]: "strip (rstrip l) = strip l"
  by (simp add: strip_def)

lemma strip_space_Cons: "py_isspace c \<Longrightarrow> strip (c # l) = strip l"
  by (simp add: strip_def rstrip_Cons lstrip_def)

lemma strip_Cons_not_Nil: "\<not> py_isspace c \<Longrightarrow> strip (c # l) \<noteq> []"
  by (simp add: strip_def rstrip_Cons lstrip_def)

lemma lstrip_rstrip: "lstrip (rstrip l) = rstrip (lstrip l)"
proof (induction l)
  case Nil
  show ?case by simp
next
  case (Cons c l)
  show ?case
  proof (cases "py_isspace c")
    case True
    have "lstrip (rstrip (c # l)) = lstrip (rstrip l)"
      using True by (simp add: rstrip_Cons lstrip_def)
    moreover have "rstrip (lstrip (c # l)) = rstrip (lstrip l)"
      using True by (simp add: lstrip_def)
    ultimately show ?thesis using Cons by simp
  next
    case False
    then show ?thesis by (simp add: rstrip_Cons lstrip_def)
  qed
qed

lemma strip_rev: "strip (rev l) = rev (strip l)"
proof -
  have "strip (rev l) = lstrip (rev (lstrip l))"
    by (simp add: strip_def rstrip_def lstrip_def)
  also have "\<dots> = rev (rstrip (lstrip l))"
    by (simp add: rstrip_def lstrip_def)
  also have "\<dots> = rev (strip l)"
    by (simp add: strip_def lstrip_rstrip)
  finally show ?thesis .
qed

lemma strip_idem [simp]: "strip (strip l) = strip l"
proof -
  have "rstrip (lstrip (rstrip l)) = lstrip (rstrip (rstrip l))"
    by (rule lstrip_rstrip [symmetric])
  then show ?thesis
    by (simp add: strip_def lstrip_def)
qed

lemma split_on_snoc_sep: "split_on sep (s @ [sep]) = split_on sep s @ [[]]"
  by (induction s) (auto split: list.splits)

lemma split_on_snoc:
  "c \<noteq> sep \<Longrightarrow>
     split_on sep (s @ [c]) = butlast (split_on sep s) @ [last (split_on sep s) @ [c]]"
  by (induction s) (auto split: list.splits)

lemma split_on_rev: "split_on sep (rev s) = rev (map rev (split_on sep s))"
proof (induction s)
  case Nil
  show ?case by simp
next
  case (Cons c s)
  show ?case
  proof (cases "c = sep")
    case True
    then show ?thesis using Cons by (simp add: split_on_snoc_sep)
  next
    case False
    obtain l ls where l: "split_on sep s = l # ls"
      by (cases "split_on sep s") simp_all
    have "split_on sep (rev (c # s)) =
            butlast (split_on sep (rev s)) @ [last (split_on sep (rev s)) @ [c]]"
      using False by (simp add: split_on_snoc)
    also have "\<dots> = rev (map rev ls) @ [rev l @ [c]]"
      using Cons l by simp
    also have "\<dots> = rev (map rev (split_on sep (c # s)))"
      using False l by simp
    finally show ?thesis .
  qed
qed

lemma trim_front_map_rev: "trim_front (map rev ls) = map rev (trim_front ls)"
proof -
  have "dropWhile (\<lambda>l. l = []) (map rev ls) = map rev (dropWhile (\<lambda>l. l = []) ls)"
    by (simp add: dropWhile_map comp_def)
  then show ?thesis by (simp add: trim_front_def)
qed

lemma trim_front_idem: "trim_front (trim_front ls) = trim_front ls"
proof (cases "dropWhile (\<lambda>l. l = []) ls = []")
  case True
  then have "trim_front ls = [[]]" by (simp add: trim_front_def)
  then show ?thesis by (simp add: trim_front_def)
next
  case False
  then have t: "trim_front ls = dropWhile (\<lambda>l. l = []) ls" by (auto simp add: trim_front_def)
  have "dropWhile (\<lambda>l. l = []) (dropWhile (\<lambda>l. l = []) ls) = dropWhile (\<lambda>l. l = []) ls"
    by (rule dropWhile_idem)
  with False have "trim_front (dropWhile (\<lambda>l. l = []) ls) = dropWhile (\<lambda>l. l = []) ls"
    unfolding trim_front_def Let_def by (simp only: if_False)
  with t show ?thesis by simp
qed

lemma trim_back_idem: "trim_back (trim_back ls) = trim_back ls"
  by (simp add: trim_back_def trim_front_idem)

lemma split_on_lstrip:
  "map strip (split_on LF (lstrip s)) = trim_front (map strip (split_on LF s))"
proof (induction s)
  case Nil
  show ?case by (simp add: trim_front_def)
next
  case (Cons c s)
  obtain l ls where l: "split_on LF s = l # ls"
    by (cases "split_on LF s") simp_all
  show ?case
  proof (cases "py_isspace c")
    case False
    then have "c \<noteq> LF" by auto
    with False l show ?thesis
      by (simp add: lstrip_def trim_front_def strip_Cons_not_Nil)
  next
    case True
    then have ls: "lstrip (c # s) = lstrip s" by (simp add: lstrip_def)
    show ?thesis
    proof (cases "c = LF")
      case True
      then show ?thesis using Cons ls by (simp add: trim_front_def)
    next
      case False
      with \<open>py_isspace c\<close> l show ?thesis using Cons ls by (simp add: strip_space_Cons)
    qed
  qed
qed

lemma split_on_rstrip:
  "map strip (split_on LF (rstrip s)) = trim_back (map strip (split_on LF s))"
proof -
  let ?M = "map strip (split_on LF s)"
  have strip_rev_map: "map strip (map rev ls) = map rev (map strip ls)" for ls
    by (simp add: strip_rev)
  have "map strip (split_on LF (rev s)) = map rev (rev ?M)"
    by (simp only: split_on_rev rev_map [symmetric] strip_rev_map)
  then have front: "map strip (split_on LF (lstrip (rev s))) = map rev (trim_front (rev ?M))"
    by (simp only: split_on_lstrip trim_front_map_rev)
  have "rstrip s = rev (lstrip (rev s))"
    by (simp add: rstrip_def lstrip_def)
  then have "map strip (split_on LF (rstrip s)) =
               map strip (rev (map rev (split_on LF (lstrip (rev s)))))"
    by (simp only: split_on_rev)
  also have "\<dots> = rev (map rev (map strip (split_on LF (lstrip (rev s)))))"
    by (simp only: rev_map strip_rev_map)
  also have "\<dots> = rev (map rev (map rev (trim_front (rev ?M))))"
    by (simp only: front)
  also have "\<dots> = trim_back ?M"
    by (simp add: trim_back_def comp_def)
  finally show ?thesis .
qed

lemma split_on_strip:
  "map strip (split_on LF (strip s)) = trim_front (trim_back (map strip (split_on LF s)))"
proof -
  have "strip s = lstrip (rstrip s)" by (simp add: strip_def)
  then show ?thesis by (simp only: split_on_lstrip split_on_rstrip)
qed

lemma split_on_replace_crlf:
  "map rstrip (split_on LF (replace_crlf s)) = map rstrip (split_on LF s)"
proof (induction s rule: replace_crlf.induct)
  case (1 c d s)
  show ?case
  proof (cases "c = CR \<and> d = LF")
    case True
    have "rstrip [CR] = []" by (simp add: rstrip_def)
    with True 1 show ?thesis by simp
  next
    case False
    then have ih: "map rstrip (split_on LF (replace_crlf (d # s))) = map rstrip (split_on LF (d # s))"
      using 1 by simp
    have r: "replace_crlf (c # d # s) = c # replace_crlf (d # s)"
      using False by simp
    have "split_on LF (d # s) \<noteq> []" by (rule split_on_not_Nil)
    then obtain l ls where l: "split_on LF (d # s) = l # ls"
      by (cases "split_on LF (d # s)") blast+
    have "split_on LF (replace_crlf (d # s)) \<noteq> []" by (rule split_on_not_Nil)
    then obtain l' ls' where l': "split_on LF (replace_crlf (d # s)) = l' # ls'"
      by (cases "split_on LF (replace_crlf (d # s))") blast+
    from ih l l' have eq: "rstrip l' = rstrip l" "map rstrip ls' = map rstrip ls"
      by simp_all
    show ?thesis
    proof (cases "c = LF")
      case True
      have "split_on LF (c # replace_crlf (d # s)) = [] # split_on LF (replace_crlf (d # s))"
        using True by simp
      moreover have "split_on LF (c # d # s) = [] # split_on LF (d # s)"
        using True by simp
      ultimately show ?thesis using ih r by simp
    next
      case False
      have "split_on LF (c # replace_crlf (d # s)) = (c # l') # ls'"
        using False l' by simp
      moreover have "split_on LF (c # d # s) = (c # l) # ls"
        using False l by simp
      ultimately show ?thesis using eq r by (simp add: rstrip_Cons)
    qed
  qed
qed simp_all

text \<open>The lines of a normalised text, stripped, are the stripped lines of the text
  without the empty ones at the back.\<close>

lemma split_on_normalize_output:
  "map strip (split_on LF (normalize_output s)) = trim_back (map strip (split_on LF s))"
proof -
  let ?L = "map rstrip (split_on LF s)"
  let ?D = "drop_trailing_empty ?L"
  have n: "normalize_output s = join_nl ?D"
    by (simp add: normalize_output_def split_on_replace_crlf)
  have no_LF: "\<forall>l \<in> set ?D. LF \<notin> set l"
    using normal_lines_normalize [of s] by (simp add: normal_lines_def)
  have strip_D: "map strip ?D = rev (dropWhile (\<lambda>l. l = []) (rev (map strip (split_on LF s))))"
  proof -
    have "dropWhile (\<lambda>l. l = []) (map rstrip ls) =
            map rstrip (dropWhile (\<lambda>l. strip l = []) ls)" for ls
      by (simp add: dropWhile_map comp_def strip_eq_Nil_iff)
    moreover have "dropWhile (\<lambda>l. l = []) (map strip ls) =
            map strip (dropWhile (\<lambda>l. strip l = []) ls)" for ls
      by (simp add: dropWhile_map comp_def)
    ultimately show ?thesis
      by (simp add: drop_trailing_empty_eq rev_map comp_def)
  qed
  show ?thesis
  proof (cases "?D = []")
    case True
    then have "dropWhile (\<lambda>l. l = []) (rev (map strip (split_on LF s))) = []"
      using strip_D by simp
    then have "trim_back (map strip (split_on LF s)) = [[]]"
      unfolding trim_back_def trim_front_def Let_def by simp
    with True n show ?thesis by simp
  next
    case False
    then have "map strip ?D \<noteq> []" by simp
    then have "rev (dropWhile (\<lambda>l. l = []) (rev (map strip (split_on LF s)))) \<noteq> []"
      unfolding strip_D .
    then have ne: "dropWhile (\<lambda>l. l = []) (rev (map strip (split_on LF s))) \<noteq> []"
      by simp
    have "trim_back (map strip (split_on LF s)) = map strip ?D"
      unfolding trim_back_def trim_front_def Let_def using ne strip_D by (simp only: if_False)
    moreover have "split_on LF (join_nl ?D) = ?D"
      using no_LF False by (rule split_on_join)
    ultimately show ?thesis using n by simp
  qed
qed

text \<open>So normalising the expected output changes none of the lines a checker reads.\<close>

lemma expected_lines_normalize_output:
  "map strip (split_on LF (strip (normalize_output s))) = map strip (split_on LF (strip s))"
  by (simp only: split_on_strip split_on_normalize_output trim_back_idem)

lemma expected_first_line_normalize_output:
  "strip (hd (split_on LF (strip (normalize_output s)))) = strip (hd (split_on LF (strip s)))"
proof -
  have "strip (hd (split_on LF t)) = hd (map strip (split_on LF t))" for t
    by (simp add: hd_map)
  then show ?thesis by (simp only: expected_lines_normalize_output)
qed

lemma expected_line_count_normalize_output:
  "length (split_on LF (strip (normalize_output s))) = length (split_on LF (strip s))"
proof -
  have "length (split_on LF t) = length (map strip (split_on LF t))" for t
    by simp
  then show ?thesis by (simp only: expected_lines_normalize_output)
qed

subsection \<open>The checkers on a normalised expected output\<close>

lemma compare_lines_strip:
  "compare_lines float_str i (zip (map strip es) as) = compare_lines float_str i (zip es as)"
proof (induction es arbitrary: i as)
  case Nil
  show ?case by simp
next
  case (Cons e es)
  show ?case
  proof (cases as)
    case Nil
    then show ?thesis by simp
  next
    case (Cons a as')
    then show ?thesis using Cons.IH
      by (auto simp add: compare_lines_step simp del: compare_lines.simps split: option.splits)
  qed
qed

lemma compare_lines_normalize_output:
  "compare_lines float_str i (zip (split_on LF (strip (normalize_output s))) as) =
   compare_lines float_str i (zip (split_on LF (strip s)) as)"
proof -
  have "compare_lines float_str i (zip (split_on LF (strip (normalize_output s))) as) =
        compare_lines float_str i (zip (map strip (split_on LF (strip (normalize_output s)))) as)"
    by (rule compare_lines_strip [symmetric])
  also have "\<dots> = compare_lines float_str i (zip (map strip (split_on LF (strip s))) as)"
    by (simp only: expected_lines_normalize_output)
  also have "\<dots> = compare_lines float_str i (zip (split_on LF (strip s)) as)"
    by (rule compare_lines_strip)
  finally show ?thesis .
qed

lemma default_checker_normalize_output:
  "default_checker float_str pid input_data (normalize_output expected) actual =
   default_checker float_str pid input_data expected actual"
  by (simp add: default_checker_def Let_def expected_line_count_normalize_output
      compare_lines_normalize_output cong: if_cong)

lemma checker_pastele_normalize_output:
  "checker_pastele pid input_data (normalize_output expected) actual =
   checker_pastele pid input_data expected actual"
  by (simp add: checker_pastele_def Let_def py_nth_0 expected_first_line_normalize_output)

lemma checker_rez_normalize_output:
  "checker_rez pid input_data (normalize_output expected) actual =
   checker_rez pid input_data expected actual"
  by (simp add: checker_rez_def Let_def py_nth_0 expected_first_line_normalize_output)

lemma checker_kolekcija_normalize_output:
  "checker_kolekcija pid input_data (normalize_output expected) actual =
   checker_kolekcija pid input_data expected actual"
  by (simp add: checker_kolekcija_def Let_def py_nth_0 expected_first_line_normalize_output)

lemma get_checker_normalize_output:
  "get_checker float_str pid p input_data (normalize_output expected) actual =
   get_checker float_str pid p input_data expected actual"
  by (simp add: get_checker_def default_checker_normalize_output checker_pastele_normalize_output
      checker_rez_normalize_output checker_kolekcija_normalize_output)

subsection \<open>The expected output \<^verbatim>\<open>grade\<close> hands to the checker\<close>

lemma read_text_Inr_iff: "read_text srv path = Inr text \<longleftrightarrow> files srv path = Some (Readable text)"
  by (simp add: read_text_def split: option.splits stored.splits)

text \<open>The checker gets the text of the file
  \<open>OUTPUTS_DIR / problem_id / f"{test_id}.txt"\<close> as \<open>read_text\<close> returns it.\<close>

lemma grade_request_expected_output:
  assumes "grade_request float_str srv body =
             Inr (Inr (pid, input_data, expected_output, actual_output))"
  shows "\<exists>data test_id.
           body = Inr data \<and> py_get data ''test_id'' PyNone = Inr test_id \<and>
           files srv (path_join (path_join (outputs_dir srv) pid)
                        (str_val float_str test_id @ ''.txt'')) =
             Some (Readable expected_output)"
proof -
  from assms obtain data where data: "body = Inr data"
    by (cases body) (simp_all add: grade_request_def)
  from assms data obtain problem_id where
    problem_id: "py_get data ''problem_id'' PyNone = Inr problem_id"
    by (cases "py_get data ''problem_id'' PyNone")
       (simp_all add: grade_request_def split: if_splits)
  from assms data problem_id obtain test_id where
    test_id: "py_get data ''test_id'' PyNone = Inr test_id"
    by (cases "py_get data ''test_id'' PyNone")
       (simp_all add: grade_request_def split: if_splits)
  from assms data problem_id test_id obtain actual where
    actual: "py_get data ''actual_output'' (PyStr []) = Inr actual"
    by (cases "py_get data ''actual_output'' (PyStr [])")
       (simp_all add: grade_request_def split: if_splits)
  from assms data problem_id test_id actual obtain p where
    p: "path_part problem_id = Inr p"
    by (cases "path_part problem_id")
       (simp_all add: grade_request_def split: if_splits)
  let ?out = "path_join (path_join (outputs_dir srv) p) (str_val float_str test_id @ ''.txt'')"
  from assms data problem_id test_id actual p
  have "p = pid \<and> read_text srv ?out = Inr expected_output"
    by (simp add: grade_request_def Let_def then_do_def
        split: if_splits sum.splits prod.splits)
  with data test_id show ?thesis
    by (auto simp add: read_text_Inr_iff)
qed

text \<open>
  Claim C1, as the code has it.  \<^verbatim>\<open>grade\<close> never calls \<^verbatim>\<open>normalize_output\<close>: the
  checker gets the stored expected output as it was read.  The response is nevertheless
  the one the checker gives on the normalised expected output, since every checker strips
  the text and each line it reads; so the verdict does not depend on CRLF line ends, on
  white space at the end of a line or on empty lines at the end of the stored file.
\<close>

theorem grade_expected_output:
  assumes "grade_request float_str srv body =
             Inr (Inr (pid, input_data, expected_output, actual_output))"
  shows "(\<exists>data test_id.
            body = Inr data \<and> py_get data ''test_id'' PyNone = Inr test_id \<and>
            files srv (path_join (path_join (outputs_dir srv) pid)
                         (str_val float_str test_id @ ''.txt'')) =
              Some (Readable expected_output)) \<and>
         grade float_str srv body =
           checker_response
             (get_checker float_str pid pid input_data expected_output actual_output) \<and>
         grade float_str srv body =
           checker_response
             (get_checker float_str pid pid input_data (normalize_output expected_output)
                actual_output)"
proof -
  have "grade float_str srv body =
          checker_response
            (get_checker float_str pid pid input_data expected_output actual_output)"
    using assms by (simp add: grade_def)
  then show ?thesis
    using grade_request_expected_output [OF assms]
    by (simp only: get_checker_normalize_output simp_thms)
qed

theorem grade_expected_output_witness:
  "files ex_server ''/grading/outputs/sum/1.txt'' = Some (Readable (''42 '' @ [LF])) \<and>
   grade no_float_str ex_server (ex_request (PyStr ''42'')) =
     checker_response
       (get_checker no_float_str ''sum'' ''sum'' (''1 41'' @ [LF])
          (normalize_output (''42 '' @ [LF])) (PyStr ''42''))"
proof -
  have stored: "files ex_server ''/grading/outputs/sum/1.txt'' = Some (Readable (''42 '' @ [LF]))"
    by (simp add: ex_server_def)
  have "grade no_float_str ex_server (ex_request (PyStr ''42'')) =
     checker_response
       (get_checker no_float_str ''sum'' ''sum'' (''1 41'' @ [LF])
          (normalize_output (''42 '' @ [LF])) (PyStr ''42''))"
    using grade_expected_output [OF ex_grade_request, of "PyStr ''42''"] by blast
  with stored show ?thesis by (rule conjI)
qed

text \<open>The stored expected output \<open>"42 \n"\<close> reaches the checker as it is stored, not as
  its normal form \<open>"42"\<close>.\<close>

theorem grade_expected_output_counterexample:
  "grade_request no_float_str ex_server (ex_request (PyStr ''42'')) =
     Inr (Inr (''sum'', ''1 41'' @ [LF], ''42 '' @ [LF], PyStr ''42'')) \<and>
   normalize_output (''42 '' @ [LF]) = ''42'' \<and>
   ''42 '' @ [LF] \<noteq> ''42''"
proof -
  have "normalize_output (''42 '' @ [LF]) = ''42''"
    by (simp add: normalize_output_def LF_def CR_def drop_trailing_empty_eq rstrip_def
        py_isspace_def)
  then show ?thesis
    by (simp add: ex_grade_request)
qed

end
